theory Spec2Isabelle
  imports
    Complex_Main
    "HOL-Library.Log_Nat"
    "HOL-Library.AList"
    "HOL-Library.Char_ord"
    "HOL-Library.List_Lexorder"
    "HOL-Library.Product_Lexorder"
    "HOL-Library.Multiset"
begin

section \<open>Numbers: Python floats as rationals with binary64 rounding\<close>

text \<open>
  The timer reads \<^verbatim>\<open>time.time()\<close>, a Python float (IEEE 754 binary64), and
  \<^verbatim>\<open>round_seconds_to_15min\<close> divides with \<^verbatim>\<open>/\<close>, which is float division also
  for integer operands. A finite float is a rational number, so numbers are modelled
  as \<^typ>\<open>rat\<close>, and every float operation of the source is the exact operation
  followed by \<open>fl\<close>, the rounding to the nearest number with a 53-bit significand,
  ties to the even significand, with the gradual underflow of binary64 (the unit in
  the last place never goes below \<open>2 powi - 1074\<close>). Python rounds \<^verbatim>\<open>int / int\<close>
  and \<^verbatim>\<open>float / float\<close> correctly, so both are \<open>fl (a / b)\<close>.

  Python converts an integer operand of a float operation to float before it
  operates; the conversion rounds correctly, so it is \<open>fl\<close> of the integer, and on a
  number that is a float already \<open>fl\<close> is the identity.

  Only finite floats are modelled. \<open>fl\<close> has no upper limit on the exponent: at a
  magnitude of \<open>2 ^ 1024\<close> or more, where a float operation of Python gives
  \<^verbatim>\<open>inf\<close> (on which \<^verbatim>\<open>math.ceil\<close> raises \<^verbatim>\<open>OverflowError\<close>) and the conversion of
  an integer raises \<^verbatim>\<open>OverflowError\<close>, the float operations of the model differ
  from the code. \<open>finite_float\<close> is the range in which they agree, and the statements
  about elapsed times assume it. The division of two integers raises
  \<^verbatim>\<open>OverflowError\<close> itself when the quotient is outside that range; that branch is
  modelled, in \<open>round_seconds_to_15min_int\<close>. \<^verbatim>\<open>nan\<close> does not arise from finite
  operands here.
\<close>

definition float_exponent :: "rat \<Rightarrow> int" where
  \<comment> \<open>\<open>\<lfloor>log\<^sub>2 \<bar>q\<bar>\<rfloor>\<close> for \<open>q \<noteq> 0\<close>, computed from the bit lengths of numerator and denominator\<close>
  "float_exponent q =
     (let (a, b) = quotient_of \<bar>q\<bar>; e0 = bitlen a - bitlen b
      in if 2 powi e0 \<le> \<bar>q\<bar> then e0 else e0 - 1)"

definition round_half_even :: "rat \<Rightarrow> int" where
  "round_half_even y =
     (let n = \<lfloor>y\<rfloor>; r = y - of_int n
      in if r < 1 / 2 then n else if 1 / 2 < r then n + 1
         else if even n then n else n + 1)"

definition fl :: "rat \<Rightarrow> rat" where
  "fl q =
     (if q = 0 then 0
      else let e = max (float_exponent q) (- 1022); ulp = 2 powi (e - 52)
           in of_int (round_half_even (q / ulp)) * ulp)"

definition finite_float :: "rat \<Rightarrow> bool" where
  "finite_float x \<longleftrightarrow> \<bar>x\<bar> < 2 ^ 1024"

section \<open>Duration policy\<close>

text \<open>
  \<^verbatim>\<open>
  def round_seconds_to_15min(seconds):
      if seconds <= 0:
          return 0
      minutes = seconds / 60
      rounded_minutes = math.ceil(minutes / 15) * 15
      return int(rounded_minutes * 60)
  \<close>
  \<^verbatim>\<open>math.ceil\<close> returns a Python integer, so the two multiplications and \<^verbatim>\<open>int\<close>
  are exact integer arithmetic. The two divisions depend on the type of \<^verbatim>\<open>seconds\<close>.

  \<open>round_seconds_to_15min\<close> is the function on a float: \<^verbatim>\<open>stop_current\<close> and
  \<^verbatim>\<open>cmd_report\<close> call it with a difference of floats, or with the integer 0, which
  the first branch returns as it is.
\<close>

definition round_seconds_to_15min :: "rat \<Rightarrow> int" where
  "round_seconds_to_15min seconds =
     (if seconds \<le> 0 then 0
      else let minutes = fl (seconds / 60);
               rounded_minutes = \<lceil>fl (minutes / 15)\<rceil> * 15
           in rounded_minutes * 60)"

text \<open>
  \<open>round_seconds_to_15min_int\<close> is the function on an integer. There
  \<^verbatim>\<open>seconds / 60\<close> is the true division of two integers: it rounds the exact
  quotient to the nearest float, and raises \<^verbatim>\<open>OverflowError\<close> when that is not a
  finite float. \<^verbatim>\<open>minutes / 15\<close> divides a finite float and stays finite.
\<close>

datatype py_error = OverflowError

definition round_seconds_to_15min_int :: "int \<Rightarrow> py_error + int" where
  "round_seconds_to_15min_int seconds =
     (if seconds \<le> 0 then Inr 0
      else let minutes = fl (of_int seconds / 60)
           in if 2 ^ 1024 \<le> minutes then Inl OverflowError
              else let rounded_minutes = \<lceil>fl (minutes / 15)\<rceil> * 15
                   in Inr (rounded_minutes * 60))"

section \<open>The data file\<close>

text \<open>
  \<^verbatim>\<open>data = {"current": None | {...}, "history": [...]}\<close>. The dictionaries of the
  source become records; a key read with \<^verbatim>\<open>.get(key, default)\<close> may be missing and
  becomes an optional field. The keys \<^verbatim>\<open>customer\<close>, \<^verbatim>\<open>project\<close> and \<^verbatim>\<open>notes\<close> of a
  history entry carry the prefix \<open>entry_\<close>, since record fields share one name space,
  and the key \<^verbatim>\<open>notes\<close> of a session is the field \<open>session_notes\<close>.

  \<^verbatim>\<open>start_timestamp\<close> is a JSON number: the float that \<^verbatim>\<open>cmd_start\<close> stored, or an
  integer when the file was written by other means. Both are rationals here; the
  integer is converted where the code computes with it.
\<close>

record session =
  customer :: string
  project :: string
  start_timestamp :: rat
  session_notes :: "string list option"

record history_entry =
  entry_customer :: string
  entry_project :: string
  duration_seconds :: int
  raw_seconds :: rat
  entry_notes :: "string list option"
  start_str :: string
  end_str :: string

record store =
  current :: "session option"
  history :: "history_entry list"

section \<open>Timer logic\<close>

text \<open>
  \<^verbatim>\<open>stop_current(data)\<close> mutates \<^verbatim>\<open>data\<close> and returns whether a timer was stopped;
  the model returns the flag and the new \<^verbatim>\<open>data\<close>. The reading of \<^verbatim>\<open>time.time()\<close> is
  the argument \<open>end_time\<close>, and \<open>hhmm\<close> stands for
  \<^verbatim>\<open>time.strftime("%H:%M", time.localtime(t))\<close>, which depends on the time zone of the
  machine. The line printed when \<^verbatim>\<open>verbose\<close> is set is not modelled.

  In \<^verbatim>\<open>raw_duration = end_time - start_time\<close> the left operand is a float, so Python
  converts \<^verbatim>\<open>start_time\<close> to float when it is an integer, and subtracts floats: the
  right operand is \<open>fl start_time\<close>, which is \<open>start_time\<close> when that is a float.
\<close>

definition stop_current :: "(rat \<Rightarrow> string) \<Rightarrow> rat \<Rightarrow> store \<Rightarrow> bool \<times> store" where
  "stop_current hhmm end_time data =
     (case current data of
        None \<Rightarrow> (False, data)
      | Some c \<Rightarrow>
          let start_time = start_timestamp c;
              raw_duration = fl (end_time - fl start_time);
              raw_duration = (if raw_duration < 0 then 0 else raw_duration);
              billed_duration = round_seconds_to_15min raw_duration;
              ns = (case session_notes c of None \<Rightarrow> [] | Some l \<Rightarrow> l);
              entry = \<lparr> entry_customer = customer c,
                        entry_project = project c,
                        duration_seconds = billed_duration,
                        raw_seconds = raw_duration,
                        entry_notes = Some ns,
                        start_str = hhmm start_time,
                        end_str = hhmm end_time \<rparr>
          in (True, data \<lparr> history := history data @ [entry], current := None \<rparr>))"

text \<open>
  The commands load the data file, work on it and save it, or return without saving.
  A command is modelled as a function from the loaded file to an outcome and the file
  as it is afterwards; saving is assumed to succeed.

  \<^verbatim>\<open>cmd_stop\<close> saves only when a timer was stopped.
\<close>

definition cmd_stop :: "(rat \<Rightarrow> string) \<Rightarrow> rat \<Rightarrow> store \<Rightarrow> bool \<times> store" where
  "cmd_stop hhmm now disk =
     (case stop_current hhmm now disk of
        (True, data) \<Rightarrow> (True, data)
      | (False, _) \<Rightarrow> (False, disk))"

text \<open>\<^verbatim>\<open>" ".join(args)\<close> and \<^verbatim>\<open>", ".join(notes_list)\<close>.\<close>

fun join :: "string \<Rightarrow> string list \<Rightarrow> string" where
  "join sep [] = []"
| "join sep [x] = x"
| "join sep (x # y # ys) = x @ sep @ join sep (y # ys)"

text \<open>
  \<^verbatim>\<open>cmd_note(args)\<close> prints one of three messages, which the outcome names, and saves
  only in the last case.
\<close>

datatype note_outcome = No_timer_running | Note_cannot_be_empty | Note_added string

definition cmd_note :: "string list \<Rightarrow> store \<Rightarrow> note_outcome \<times> store" where
  "cmd_note args disk =
     (case current disk of
        None \<Rightarrow> (No_timer_running, disk)
      | Some c \<Rightarrow>
          if args = [] then (Note_cannot_be_empty, disk)
          else
            let new_note = join '' '' args;
                c1 = (case session_notes c of None \<Rightarrow> c \<lparr> session_notes := Some [] \<rparr> | Some _ \<Rightarrow> c);
                c2 = c1 \<lparr> session_notes := map_option (\<lambda>l. l @ [new_note]) (session_notes c1) \<rparr>
            in (Note_added new_note, disk \<lparr> current := Some c2 \<rparr>))"

text \<open>
  \<^verbatim>\<open>cmd_start(args)\<close> stops a running timer, resolves \<^verbatim>\<open>args\<close> to a customer, a
  project and a note (through a shortcut, the configured lists or the interactive
  menu), and either returns without saving or installs the new session and saves.
  The resolution reads the configuration file and the terminal; its result is the
  input here, each value \<^verbatim>\<open>None\<close> or a string. \<open>t_stop\<close> and \<open>t_start\<close> are the two
  readings of \<^verbatim>\<open>time.time()\<close>: the one in \<^verbatim>\<open>stop_current\<close> and the one for the new
  session.
\<close>

fun truthy :: "string option \<Rightarrow> bool" where
  "truthy None = False"
| "truthy (Some s) = (s \<noteq> [])"

datatype start_outcome = Cancelled_or_invalid_input | Started

definition cmd_start ::
  "(rat \<Rightarrow> string) \<Rightarrow> rat \<Rightarrow> rat \<Rightarrow> string option \<Rightarrow> string option \<Rightarrow> string option
     \<Rightarrow> store \<Rightarrow> start_outcome \<times> store" where
  "cmd_start hhmm t_stop t_start cust proj note disk =
     (let data = (if current disk \<noteq> None then snd (stop_current hhmm t_stop disk) else disk)
      in case (cust, proj) of
           (Some cu, Some pr) \<Rightarrow>
             if \<not> truthy cust \<or> \<not> truthy proj then (Cancelled_or_invalid_input, disk)
             else
               let notes_list = (case note of None \<Rightarrow> [] | Some n \<Rightarrow> if truthy note then [n] else [])
               in (Started,
                   data \<lparr> current := Some \<lparr> customer = cu, project = pr,
                                            start_timestamp = t_start,
                                            session_notes = Some notes_list \<rparr> \<rparr>)
         | _ \<Rightarrow> (Cancelled_or_invalid_input, disk))"

section \<open>Report\<close>

text \<open>
  \<^verbatim>\<open>summary\<close> is a Python dictionary from the pair \<^verbatim>\<open>(cust, proj)\<close> to
  \<^verbatim>\<open>{"total_seconds": n, "tasks": {task_name: seconds}}\<close>. A Python dictionary keeps
  its keys in the order of their first insertion, and the report prints groups and
  tasks in that order, so both dictionaries are association lists:
  \<open>map_of\<close> reads a key, and \<open>AList.update\<close> overwrites the value of a key in place or
  appends a new key at the end.
\<close>

record group_info =
  total_seconds :: int
  tasks :: "(string \<times> int) list"

type_synonym summary = "((string \<times> string) \<times> group_info) list"

text \<open>
  \<^verbatim>\<open>
  def process_entry(cust, proj, seconds, notes_list):
      key = (cust, proj)
      if key not in summary:
          summary[key] = {"total_seconds": 0, "tasks": {}}
      summary[key]["total_seconds"] += seconds
      if notes_list:
          task_name = ", ".join(notes_list)
      else:
          task_name = "No Description"
      current_task_time = summary[key]["tasks"].get(task_name, 0)
      summary[key]["tasks"][task_name] = current_task_time + seconds
  \<close>
  \<open>info\<close> is \<^verbatim>\<open>summary[key]\<close> after the first \<^verbatim>\<open>if\<close>; the two updates of it are written
  back with one \<open>AList.update\<close>, which appends the group when the key is new.
\<close>

definition process_entry :: "summary \<Rightarrow> string \<Rightarrow> string \<Rightarrow> int \<Rightarrow> string list \<Rightarrow> summary" where
  "process_entry summary cust proj seconds notes_list =
     (let key = (cust, proj);
          info = (case map_of summary key of
                    None \<Rightarrow> \<lparr> total_seconds = 0, tasks = [] \<rparr>
                  | Some i \<Rightarrow> i);
          info = info \<lparr> total_seconds := total_seconds info + seconds \<rparr>;
          task_name = (if notes_list \<noteq> [] then join '', '' notes_list else ''No Description'');
          current_task_time = (case map_of (tasks info) task_name of None \<Rightarrow> 0 | Some t \<Rightarrow> t);
          info = info \<lparr> tasks := AList.update task_name (current_task_time + seconds) (tasks info) \<rparr>
      in AList.update key info summary)"

text \<open>
  \<^verbatim>\<open>cmd_report\<close> prints the report and, in copy mode, puts a summary on the clipboard.
  The model returns the values that the text is rendered from: the sorted list of
  groups, the total of the day, and whether the line about the running timer is
  printed; the rendering itself is not modelled. It also returns the data file, which
  the command never saves. \<open>lower\<close> stands for \<^verbatim>\<open>str.lower\<close>, which follows the Unicode
  tables of the Python runtime; \<^verbatim>\<open>sorted\<close> is stable, as \<open>sort_key\<close> is, and compares
  the key pairs lexicographically, strings by code point. The running session is
  billed on \<^verbatim>\<open>time.time() - c["start_timestamp"]\<close>, the same subtraction as in
  \<^verbatim>\<open>stop_current\<close>, without the clamp: \<open>round_seconds_to_15min\<close> returns 0 on a
  negative number.
\<close>

record report =
  sorted_items :: "((string \<times> string) \<times> group_info) list"
  total_day_seconds :: int
  includes_running :: bool

definition cmd_report :: "(string \<Rightarrow> string) \<Rightarrow> rat \<Rightarrow> store \<Rightarrow> report \<times> store" where
  "cmd_report lower now data =
     (let summary =
            fold (\<lambda>entry summary.
                    process_entry summary (entry_customer entry) (entry_project entry)
                      (duration_seconds entry)
                      (case entry_notes entry of None \<Rightarrow> [] | Some l \<Rightarrow> l))
              (history data) [];
          summary =
            (case current data of
               None \<Rightarrow> summary
             | Some c \<Rightarrow>
                 let raw = fl (now - fl (start_timestamp c));
                     billed = round_seconds_to_15min raw
                 in process_entry summary (customer c) (project c) billed
                      (case session_notes c of None \<Rightarrow> [] | Some l \<Rightarrow> l));
          sorted_items = sort_key (\<lambda>x. (lower (fst (fst x)), lower (snd (fst x)))) summary;
          total_day_seconds = fold (\<lambda>(key, info) total. total + total_seconds info) sorted_items 0
      in (\<lparr> sorted_items = sorted_items,
            total_day_seconds = total_day_seconds,
            includes_running = (current data \<noteq> None) \<rparr>,
          data))"

text \<open>\<^verbatim>\<open>str.lower\<close> on ASCII text, as one instance of \<open>lower\<close>.\<close>

definition ascii_lower :: "string \<Rightarrow> string" where
  "ascii_lower s =
     map (\<lambda>c. let n = of_char c :: nat in if 65 \<le> n \<and> n \<le> 90 then char_of (n + 32) else c) s"

section \<open>The report as the specification describes it\<close>

text \<open>
  The specification describes the aggregation by its result: every history entry, and
  the running session billed as of now, is a row with a key, a number of seconds and
  notes; a group holds the rows of one key, and a task bucket the rows of one label
  within the group. These definitions follow that description, not the code.
\<close>

type_synonym row = "(string \<times> string) \<times> int \<times> string list"

definition task_label :: "string list \<Rightarrow> string" where
  "task_label ns = (if ns = [] then ''No Description'' else join '', '' ns)"

definition history_row :: "history_entry \<Rightarrow> row" where
  "history_row e =
     ((entry_customer e, entry_project e), duration_seconds e,
      (case entry_notes e of None \<Rightarrow> [] | Some l \<Rightarrow> l))"

definition running_row :: "rat \<Rightarrow> session \<Rightarrow> row" where
  "running_row now c =
     ((customer c, project c),
      round_seconds_to_15min (max 0 (fl (now - fl (start_timestamp c)))),
      (case session_notes c of None \<Rightarrow> [] | Some l \<Rightarrow> l))"

definition report_rows :: "rat \<Rightarrow> store \<Rightarrow> row list" where
  "report_rows now data =
     map history_row (history data) @
     (case current data of None \<Rightarrow> [] | Some c \<Rightarrow> [running_row now c])"

definition rows_of :: "string \<times> string \<Rightarrow> row list \<Rightarrow> row list" where
  "rows_of key rows = filter (\<lambda>r. fst r = key) rows"

definition labelled_rows :: "string \<times> string \<Rightarrow> string \<Rightarrow> row list \<Rightarrow> row list" where
  "labelled_rows key l rows = filter (\<lambda>r. task_label (snd (snd r)) = l) (rows_of key rows)"

definition seconds_of :: "row list \<Rightarrow> int" where
  "seconds_of rows = sum_list (map (\<lambda>r. fst (snd r)) rows)"

text \<open>
  One step of the aggregation on a row, and the relation between a list of rows and a
  summary that the aggregation maintains.
\<close>

definition process_row :: "row \<Rightarrow> summary \<Rightarrow> summary" where
  "process_row r summary = process_entry summary (fst (fst r)) (snd (fst r)) (fst (snd r)) (snd (snd r))"

definition summarises :: "row list \<Rightarrow> summary \<Rightarrow> bool" where
  "summarises rows summary \<longleftrightarrow>
     distinct (map fst summary) \<and>
     (\<forall>key. rows_of key rows = [] \<longrightarrow> map_of summary key = None) \<and>
     (\<forall>key. rows_of key rows \<noteq> [] \<longrightarrow>
        (\<exists>g. map_of summary key = Some g \<and>
             total_seconds g = seconds_of (rows_of key rows) \<and>
             distinct (map fst (tasks g)) \<and>
             (\<forall>l. map_of (tasks g) l =
                    (if labelled_rows key l rows = [] then None
                     else Some (seconds_of (labelled_rows key l rows))))))"


section \<open>Notions used in the statements and proofs\<close>

definition ulp :: "rat \<Rightarrow> rat" where
  \<comment> \<open>the spacing of the floats around \<open>q\<close>: \<open>fl q\<close> is a multiple of it\<close>
  "ulp q = 2 powi (max (float_exponent q) (- 1022) - 52)"


definition timestamps_finite :: "rat \<Rightarrow> store \<Rightarrow> bool" where
  \<comment> \<open>the start of the running session and the time elapsed at \<open>now\<close> are finite floats\<close>
  "timestamps_finite now data \<longleftrightarrow>
     (case current data of
        None \<Rightarrow> True
      | Some c \<Rightarrow>
          finite_float (fl (start_timestamp c)) \<and>
          finite_float (fl (now - fl (start_timestamp c))))"

definition is_whole :: "rat \<Rightarrow> bool" where
  \<comment> \<open>the number is a whole number (of seconds)\<close>
  "is_whole q \<longleftrightarrow> of_int \<lfloor>q\<rfloor> = q"

definition committed_entry :: "(rat \<Rightarrow> string) \<Rightarrow> rat \<Rightarrow> store \<Rightarrow> history_entry" where
  \<comment> \<open>the entry that \<open>stop_current\<close> appends, read back from the history: \<^verbatim>\<open>data["history"][-1]\<close>\<close>
  "committed_entry hhmm t data = last (history (snd (stop_current hhmm t data)))"

section \<open>Example data\<close>

text \<open>A clock formatter for the zone UTC, as one instance of \<open>hhmm\<close>.\<close>

definition two_digits :: "int \<Rightarrow> string" where
  "two_digits n = [''0123456789'' ! nat (n div 10), ''0123456789'' ! nat (n mod 10)]"

definition hhmm_utc :: "rat \<Rightarrow> string" where
  "hhmm_utc t = two_digits (\<lfloor>t\<rfloor> div 3600 mod 24) @ '':'' @ two_digits (\<lfloor>t\<rfloor> div 60 mod 60)"

definition idle_store :: store where
  "idle_store = \<lparr> current = None, history = [] \<rparr>"

definition running_store :: store where
  "running_store =
     \<lparr> current = Some \<lparr> customer = ''Test'', project = ''Proj'',
                        start_timestamp = 1000, session_notes = Some [''First note''] \<rparr>,
       history = [] \<rparr>"



definition huge_start_store :: store where
  \<comment> \<open>a start that is an integer and not a float: \<open>2 ^ 53 + 1\<close>\<close>
  "huge_start_store =
     \<lparr> current = Some \<lparr> customer = ''Test'', project = ''Proj'',
                        start_timestamp = 9007199254740993, session_notes = Some [] \<rparr>,
       history = [] \<rparr>"


definition two_bug_fixes :: store where
  \<comment> \<open>two history entries of one customer and project with the same notes\<close>
  "two_bug_fixes =
     \<lparr> current = None,
       history =
         [\<lparr> entry_customer = ''Acme'', entry_project = ''Website'', duration_seconds = 900,
             raw_seconds = 60, entry_notes = Some [''Bug fix''],
             start_str = ''09:00'', end_str = ''09:01'' \<rparr>,
          \<lparr> entry_customer = ''Acme'', entry_project = ''Website'', duration_seconds = 1800,
             raw_seconds = 960, entry_notes = Some [''Bug fix''],
             start_str = ''10:00'', end_str = ''10:16'' \<rparr>] \<rparr>"

definition beta_then_acme :: store where
  "beta_then_acme =
     \<lparr> current = None,
       history =
         [\<lparr> entry_customer = ''beta'', entry_project = ''x'', duration_seconds = 900,
             raw_seconds = 60, entry_notes = Some [],
             start_str = ''09:00'', end_str = ''09:01'' \<rparr>,
          \<lparr> entry_customer = ''Acme'', entry_project = ''y'', duration_seconds = 900,
             raw_seconds = 60, entry_notes = None,
             start_str = ''10:00'', end_str = ''10:01'' \<rparr>] \<rparr>"

section \<open>Rounding to binary64\<close>

lemma round_half_even_error: "\<bar>of_int (round_half_even y) - y\<bar> \<le> 1 / 2"
proof -
  have "of_int \<lfloor>y\<rfloor> \<le> y" "y < of_int \<lfloor>y\<rfloor> + 1"
    by linarith+
  then show ?thesis
    unfolding round_half_even_def Let_def by (simp add: abs_le_iff)
qed

lemma round_half_even_of_int: "round_half_even (of_int n) = n"
  by (simp add: round_half_even_def)

lemma round_half_even_nonneg: "0 \<le> y \<Longrightarrow> 0 \<le> round_half_even y"
  unfolding round_half_even_def Let_def by (auto simp: ) 

lemma round_half_even_nonpos: "y \<le> 0 \<Longrightarrow> round_half_even y \<le> 0"
proof -
  assume y: "y \<le> 0"
  show ?thesis
  proof (cases "y = of_int \<lfloor>y\<rfloor>")
    case True
    then have "round_half_even y = \<lfloor>y\<rfloor>"
      by (simp add: round_half_even_def)
    with y show ?thesis by simp
  next
    case False
    then have "of_int \<lfloor>y\<rfloor> < y" by linarith
    with y have "\<lfloor>y\<rfloor> < 0" by linarith 
    then have "\<lfloor>y\<rfloor> + 1 \<le> 0" by linarith
    moreover have "round_half_even y \<le> \<lfloor>y\<rfloor> + 1"
      unfolding round_half_even_def Let_def by simp
    ultimately show ?thesis by linarith
  qed
qed

lemma fl_nonneg: "0 \<le> q \<Longrightarrow> 0 \<le> fl q"
  by (auto simp: fl_def Let_def intro!: mult_nonneg_nonneg round_half_even_nonneg)

lemma fl_nonpos: "q \<le> 0 \<Longrightarrow> fl q \<le> 0"
  by (auto simp: fl_def Let_def intro!: mult_nonpos_nonneg round_half_even_nonpos divide_nonpos_pos)

lemma bitlen_rat_bounds:
  assumes "0 < a"
  shows "(2::rat) powi (bitlen a - 1) \<le> of_int a" and "of_int a < (2::rat) powi bitlen a"
proof -
  have l: "1 \<le> bitlen a"
    using assms bitlen_eq_zero_iff [of a] bitlen_nonneg [of a] by linarith
  have "2 ^ nat (bitlen a - 1) \<le> a" and "a < 2 ^ nat (bitlen a)"
    using bitlen_bounds [OF assms] by simp_all
  then have "rat_of_int (2 ^ nat (bitlen a - 1)) \<le> of_int a"
    and "rat_of_int a < of_int (2 ^ nat (bitlen a))"
    by (simp_all only: of_int_le_iff of_int_less_iff)
  then show "(2::rat) powi (bitlen a - 1) \<le> of_int a" and "of_int a < (2::rat) powi bitlen a"
    using l by (simp_all add: power_int_def)
qed

lemma float_exponent_bounds:
  assumes "q \<noteq> 0"
  shows "2 powi float_exponent q \<le> \<bar>q\<bar>" and "\<bar>q\<bar> < 2 powi (float_exponent q + 1)"
proof -
  obtain a b where ab: "quotient_of \<bar>q\<bar> = (a, b)"
    by (cases "quotient_of \<bar>q\<bar>")
  have b: "0 < b" using ab quotient_of_denom_pos by blast
  have q: "\<bar>q\<bar> = of_int a / of_int b" using ab quotient_of_div by blast
  have "0 < \<bar>q\<bar>" using assms by simp
  with q b have a: "0 < a"
    by (simp add: zero_less_divide_iff)
  let ?la = "bitlen a" and ?lb = "bitlen b"
  have la: "1 \<le> ?la" and lb: "1 \<le> ?lb"
    using a b bitlen_eq_zero_iff [of a] bitlen_eq_zero_iff [of b] bitlen_nonneg [of a] bitlen_nonneg [of b]
    by linarith+
  have a1: "(2::rat) powi (?la - 1) \<le> of_int a" and a2: "of_int a < (2::rat) powi ?la"
    using bitlen_rat_bounds [OF a] by simp_all
  have b1: "(2::rat) powi (?lb - 1) \<le> of_int b" and b2: "of_int b < (2::rat) powi ?lb"
    using bitlen_rat_bounds [OF b] by simp_all
  have bpos: "(0::rat) < of_int b" using b by simp
  have "(2::rat) powi (?la - ?lb - 1) * of_int b \<le> 2 powi (?la - ?lb - 1) * 2 powi ?lb"
    using b2 by (intro mult_left_mono) simp_all
  also have "\<dots> = 2 powi (?la - 1)"
    by (simp flip: power_int_add)
  also have "\<dots> \<le> of_int a" by (rule a1)
  finally have lo: "(2::rat) powi (?la - ?lb - 1) \<le> \<bar>q\<bar>"
    using bpos by (simp add: q pos_le_divide_eq)
  have "of_int a < (2::rat) powi ?la" by (rule a2)
  also have "\<dots> = 2 powi (?la - ?lb + 1) * 2 powi (?lb - 1)"
    by (simp flip: power_int_add)
  also have "\<dots> \<le> 2 powi (?la - ?lb + 1) * of_int b"
    using b1 by (intro mult_left_mono) simp_all
  finally have hi: "\<bar>q\<bar> < (2::rat) powi (?la - ?lb + 1)"
    using bpos by (simp add: q pos_divide_less_eq)
  show "2 powi float_exponent q \<le> \<bar>q\<bar>"
    using lo by (simp add: float_exponent_def ab Let_def)
  show "\<bar>q\<bar> < 2 powi (float_exponent q + 1)"
    using hi by (auto simp add: float_exponent_def ab Let_def not_le)
qed


lemma float_exponent_ge:
  assumes "q \<noteq> 0" and "2 powi k \<le> \<bar>q\<bar>"
  shows "k \<le> float_exponent q"
proof -
  have "(2::rat) powi k < 2 powi (float_exponent q + 1)"
    using assms(2) float_exponent_bounds(2) [OF assms(1)] by (rule le_less_trans)
  then have "\<not> float_exponent q + 1 \<le> k"
    using power_int_increasing [of "float_exponent q + 1" k "2::rat"] by auto
  then show ?thesis by simp
qed

lemma float_exponent_less:
  assumes "q \<noteq> 0" and "\<bar>q\<bar> < 2 powi k"
  shows "float_exponent q < k"
proof -
  have "(2::rat) powi float_exponent q < 2 powi k"
    using float_exponent_bounds(1) [OF assms(1)] assms(2) by (rule le_less_trans)
  then have "\<not> k \<le> float_exponent q"
    using power_int_increasing [of k "float_exponent q" "2::rat"] by auto
  then show ?thesis by simp
qed

lemma fl_error:
  assumes "q \<noteq> 0" and "- 1022 \<le> float_exponent q"
  shows "\<bar>fl q - q\<bar> \<le> \<bar>q\<bar> / 2 ^ 53"
proof -
  define e where "e = float_exponent q"
  define ulp :: rat where "ulp = 2 powi (e - 52)"
  have ulp: "0 < ulp" by (simp add: ulp_def)
  have fl: "fl q = of_int (round_half_even (q / ulp)) * ulp"
    using assms by (simp add: fl_def Let_def e_def ulp_def max_def)
  have "fl q - q = (of_int (round_half_even (q / ulp)) - q / ulp) * ulp"
    using ulp by (simp add: fl field_simps)
  then have "\<bar>fl q - q\<bar> = \<bar>of_int (round_half_even (q / ulp)) - q / ulp\<bar> * ulp"
    using ulp by (simp add: abs_mult)
  also have "\<dots> \<le> 1 / 2 * ulp"
    using ulp round_half_even_error [of "q / ulp"] by (intro mult_right_mono) simp_all
  also have "\<dots> = 2 powi e / 2 ^ 53"
  proof -
    have "(2::rat) powi (e - 52) = 2 powi e * 2 powi (- 52)"
      using power_int_add [of "2::rat" e "- 52"] by simp
    then show ?thesis
      by (simp add: ulp_def power_int_minus field_simps)
  qed
  also have "\<dots> \<le> \<bar>q\<bar> / 2 ^ 53"
    using float_exponent_bounds(1) [OF assms(1)] by (simp add: e_def divide_right_mono)
  finally show ?thesis .
qed

lemma fl_of_int:
  assumes "\<bar>n\<bar> < 2 ^ 53"
  shows "fl (of_int n) = of_int n"
proof (cases "n = 0")
  case True
  then show ?thesis by (simp add: fl_def)
next
  case False
  define q :: rat where "q = of_int n"
  define e where "e = float_exponent q"
  have q0: "q \<noteq> 0" using False by (simp add: q_def)
  have "(1::rat) \<le> \<bar>q\<bar>"
    using False unfolding q_def by (metis of_int_abs of_int_1_le_iff zero_less_abs_iff int_one_le_iff_zero_less)
  then have "(2::rat) powi 0 \<le> \<bar>q\<bar>" by simp
  then have e0: "0 \<le> e"
    unfolding e_def using q0 by (rule float_exponent_ge [rotated])
  have "\<bar>q\<bar> < 2 ^ 53"
    using assms unfolding q_def by (metis of_int_abs of_int_less_iff of_int_numeral of_int_power)
  then have "\<bar>q\<bar> < 2 powi 53" by simp
  then have e53: "e < 53"
    unfolding e_def using q0 by (rule float_exponent_less [rotated])
  define j where "j = nat (52 - e)"
  have ulp: "(2::rat) powi (e - 52) = 1 / 2 ^ j"
    using e53 by (simp add: power_int_def j_def field_simps)
  have "q / (1 / 2 ^ j) = of_int (n * 2 ^ j)"
    by (simp add: q_def)
  then have "round_half_even (q / (1 / 2 ^ j)) = n * 2 ^ j"
    by (simp only: round_half_even_of_int)
  then have "fl q = of_int (n * 2 ^ j) * (1 / 2 ^ j)"
    using q0 e0 by (simp add: fl_def Let_def max_def flip: e_def ulp)
  then show ?thesis
    by (simp add: q_def)
qed

lemma round_half_even_le_int:
  assumes "y \<le> of_int n"
  shows "round_half_even y \<le> n"
proof (cases "y = of_int \<lfloor>y\<rfloor>")
  case True
  then have "round_half_even y = \<lfloor>y\<rfloor>"
    by (simp add: round_half_even_def)
  moreover have "\<lfloor>y\<rfloor> \<le> n"
    using assms by (simp add: floor_le_iff)
  ultimately show ?thesis by simp
next
  case False
  then have "of_int \<lfloor>y\<rfloor> < y" by linarith
  with assms have "rat_of_int \<lfloor>y\<rfloor> < of_int n" by linarith
  then have "\<lfloor>y\<rfloor> + 1 \<le> n" by simp
  moreover have "round_half_even y \<le> \<lfloor>y\<rfloor> + 1"
    unfolding round_half_even_def Let_def by simp
  ultimately show ?thesis by linarith
qed

lemma round_half_even_ge_int:
  assumes "of_int n \<le> y"
  shows "n \<le> round_half_even y"
proof -
  have "n \<le> \<lfloor>y\<rfloor>"
    using assms by (simp add: le_floor_iff)
  moreover have "\<lfloor>y\<rfloor> \<le> round_half_even y"
    unfolding round_half_even_def Let_def by simp
  ultimately show ?thesis by linarith
qed

lemma round_half_even_gt_half:
  assumes "of_int n + 1 / 2 < y"
  shows "n + 1 \<le> round_half_even y"
proof -
  have n: "n \<le> \<lfloor>y\<rfloor>"
    using assms by (simp add: le_floor_iff)
  show ?thesis
  proof (cases "\<lfloor>y\<rfloor> = n")
    case True
    then have "1 / 2 < y - of_int \<lfloor>y\<rfloor>"
      using assms by simp
    then have "round_half_even y = \<lfloor>y\<rfloor> + 1"
      unfolding round_half_even_def Let_def by simp
    then show ?thesis using True by simp
  next
    case False
    with n have "n + 1 \<le> \<lfloor>y\<rfloor>" by linarith
    moreover have "\<lfloor>y\<rfloor> \<le> round_half_even y"
      unfolding round_half_even_def Let_def by simp
    ultimately show ?thesis by linarith
  qed
qed

lemma ulp_pos: "0 < ulp q"
  by (simp add: ulp_def)

lemma fl_ulp: "fl q = of_int (round_half_even (q / ulp q)) * ulp q"
  by (simp add: fl_def ulp_def Let_def round_half_even_def)

lemma fl_le_multiple:
  assumes "q \<le> of_int N * ulp q"
  shows "fl q \<le> of_int N * ulp q"
proof -
  have "q / ulp q \<le> of_int N"
    using assms ulp_pos [of q] by (simp add: pos_divide_le_eq)
  then have "round_half_even (q / ulp q) \<le> N"
    by (rule round_half_even_le_int)
  then have "rat_of_int (round_half_even (q / ulp q)) \<le> of_int N"
    by simp
  then have "of_int (round_half_even (q / ulp q)) * ulp q \<le> of_int N * ulp q"
    using ulp_pos [of q] by (intro mult_right_mono) simp_all
  then show ?thesis
    by (simp only: fl_ulp [of q])
qed

lemma fl_ge_multiple:
  assumes "of_int N * ulp q \<le> q"
  shows "of_int N * ulp q \<le> fl q"
proof -
  have "of_int N \<le> q / ulp q"
    using assms ulp_pos [of q] by (simp add: pos_le_divide_eq)
  then have "N \<le> round_half_even (q / ulp q)"
    by (rule round_half_even_ge_int)
  then have "rat_of_int N \<le> of_int (round_half_even (q / ulp q))"
    by simp
  then have "of_int N * ulp q \<le> of_int (round_half_even (q / ulp q)) * ulp q"
    using ulp_pos [of q] by (intro mult_right_mono) simp_all
  then show ?thesis
    by (simp only: fl_ulp [of q])
qed

lemma fl_gt_multiple:
  assumes "of_int N * ulp q + ulp q / 2 < q"
  shows "of_int (N + 1) * ulp q \<le> fl q"
proof -
  have "(of_int N + 1 / 2) * ulp q < q"
    using assms by (simp add: algebra_simps)
  then have "of_int N + 1 / 2 < q / ulp q"
    using ulp_pos [of q] by (simp add: pos_less_divide_eq)
  then have "N + 1 \<le> round_half_even (q / ulp q)"
    by (rule round_half_even_gt_half)
  then have "rat_of_int (N + 1) \<le> of_int (round_half_even (q / ulp q))"
    by (simp only: of_int_le_iff)
  then have "of_int (N + 1) * ulp q \<le> of_int (round_half_even (q / ulp q)) * ulp q"
    using ulp_pos [of q] by (intro mult_right_mono) simp_all
  then show ?thesis
    by (simp only: fl_ulp [of q])
qed

lemma ulp_le:
  assumes "q \<noteq> 0" and "\<bar>q\<bar> < 2 powi k" and "- 1021 \<le> k"
  shows "ulp q \<le> 2 powi (k - 53)"
proof -
  have "float_exponent q < k"
    using assms(1,2) by (rule float_exponent_less)
  then have "max (float_exponent q) (- 1022) - 52 \<le> k - 53"
    using assms(3) by simp
  then show ?thesis
    unfolding ulp_def by (intro power_int_increasing) simp_all
qed

lemma ulp_normal:
  assumes "2 powi (- 1022) \<le> \<bar>q\<bar>"
  shows "ulp q = 2 powi (float_exponent q - 52)"
proof -
  have "(0::rat) < 2 powi (- 1022)" by simp
  then have "0 < \<bar>q\<bar>" using assms by (rule less_le_trans)
  then have "q \<noteq> 0" by simp
  then have "- 1022 \<le> float_exponent q"
    using assms by (rule float_exponent_ge)
  then show ?thesis
    by (simp add: ulp_def max_def)
qed

lemma ulp_inverse_power:
  assumes "q \<noteq> 0" and "\<bar>q\<bar> < 2 ^ 53"
  shows "\<exists>j::nat. ulp q = 1 / 2 ^ j"
proof -
  have "\<bar>q\<bar> < 2 powi 53" using assms(2) by simp
  with assms(1) have "float_exponent q < 53"
    by (rule float_exponent_less)
  then have e: "max (float_exponent q) (- 1022) \<le> 52" by simp
  define j where "j = nat (52 - max (float_exponent q) (- 1022))"
  have "ulp q = 1 / 2 ^ j"
    using e unfolding ulp_def j_def by (simp add: power_int_def field_simps)
  then show ?thesis ..
qed

lemma fl_le_int:
  assumes "\<bar>q\<bar> < 2 ^ 53" and "q \<le> of_int n"
  shows "fl q \<le> of_int n"
proof (cases "q = 0")
  case True
  then show ?thesis using assms(2) by (simp add: fl_def)
next
  case False
  then obtain j :: nat where j: "ulp q = 1 / 2 ^ j"
    using assms(1) ulp_inverse_power by blast
  have n: "rat_of_int n = of_int (n * 2 ^ j) * ulp q"
    by (simp add: j)
  show ?thesis
    using assms(2) unfolding n by (rule fl_le_multiple)
qed

lemma fl_ge_int:
  assumes "\<bar>q\<bar> < 2 ^ 53" and "of_int n \<le> q"
  shows "of_int n \<le> fl q"
proof (cases "q = 0")
  case True
  then show ?thesis using assms(2) by (simp add: fl_def)
next
  case False
  then obtain j :: nat where j: "ulp q = 1 / 2 ^ j"
    using assms(1) ulp_inverse_power by blast
  have n: "rat_of_int n = of_int (n * 2 ^ j) * ulp q"
    by (simp add: j)
  show ?thesis
    using assms(2) unfolding n by (rule fl_ge_multiple)
qed

lemma fl_gt_int:
  assumes "q \<noteq> 0" and "\<bar>q\<bar> < 2 ^ 53" and "of_int n + ulp q / 2 < q"
  shows "of_int n + ulp q \<le> fl q"
proof -
  obtain j :: nat where j: "ulp q = 1 / 2 ^ j"
    using assms(1,2) ulp_inverse_power by blast
  have n: "rat_of_int n = of_int (n * 2 ^ j) * ulp q"
    by (simp add: j)
  have "of_int (n * 2 ^ j) * ulp q + ulp q / 2 < q"
    using assms(3) by (simp only: n [symmetric])
  then have "of_int (n * 2 ^ j + 1) * ulp q \<le> fl q"
    by (rule fl_gt_multiple)
  moreover have "of_int (n * 2 ^ j + 1) * ulp q = of_int n + ulp q"
    by (simp add: j field_simps)
  ultimately show ?thesis by simp
qed

lemma powi_multiple_ulp:
  assumes "max (float_exponent q) (- 1022) - 52 \<le> k"
  shows "(2::rat) powi k = of_int (2 ^ nat (k - (max (float_exponent q) (- 1022) - 52))) * ulp q"
proof -
  define m where "m = k - (max (float_exponent q) (- 1022) - 52)"
  have m: "0 \<le> m" using assms by (simp add: m_def)
  have "(2::rat) powi k = 2 powi (m + (max (float_exponent q) (- 1022) - 52))"
    by (simp add: m_def)
  also have "\<dots> = 2 powi m * ulp q"
    unfolding ulp_def by (rule power_int_add) simp
  also have "(2::rat) powi m = of_int (2 ^ nat m)"
    using m by (simp add: power_int_def)
  finally show ?thesis
    by (simp only: m_def)
qed

lemma fl_le_powi:
  assumes "0 < q" and "q \<le> 2 powi k" and "- 1074 \<le> k"
  shows "fl q \<le> 2 powi k"
proof -
  have "(2::rat) powi k < 2 powi (k + 1)"
    by (rule power_int_strict_increasing) simp_all
  with assms(1,2) have "\<bar>q\<bar> < 2 powi (k + 1)" by simp
  moreover have "q \<noteq> 0" using assms(1) by simp
  ultimately have "float_exponent q < k + 1"
    by (rule float_exponent_less [rotated])
  then have "max (float_exponent q) (- 1022) - 52 \<le> k"
    using assms(3) by simp
  then have k: "(2::rat) powi k = of_int (2 ^ nat (k - (max (float_exponent q) (- 1022) - 52))) * ulp q"
    by (rule powi_multiple_ulp)
  show ?thesis
    using assms(2) unfolding k by (rule fl_le_multiple)
qed

lemma fl_ge_powi:
  assumes "2 powi k \<le> q" and "- 1074 \<le> k"
  shows "2 powi k \<le> fl q"
proof -
  have "(0::rat) < 2 powi k" by simp
  then have q: "0 < q" using assms(1) by (rule less_le_trans)
  then have q0: "q \<noteq> 0" by simp
  have ke: "k \<le> float_exponent q"
    using q0 assms(1) q by (intro float_exponent_ge) simp_all
  show ?thesis
  proof (cases "max (float_exponent q) (- 1022) - 52 \<le> k")
    case True
    then have k: "(2::rat) powi k = of_int (2 ^ nat (k - (max (float_exponent q) (- 1022) - 52))) * ulp q"
      by (rule powi_multiple_ulp)
    show ?thesis
      using assms(1) unfolding k by (rule fl_ge_multiple)
  next
    case False
    then have e: "- 1022 \<le> float_exponent q" using assms(2) by simp
    then have "max (float_exponent q) (- 1022) - 52 \<le> float_exponent q" by simp
    then have k: "(2::rat) powi float_exponent q =
        of_int (2 ^ nat (float_exponent q - (max (float_exponent q) (- 1022) - 52))) * ulp q"
      by (rule powi_multiple_ulp)
    have "2 powi float_exponent q \<le> q"
      using float_exponent_bounds(1) [OF q0] q by simp
    then have "2 powi float_exponent q \<le> fl q"
      unfolding k by (rule fl_ge_multiple)
    moreover have "(2::rat) powi k \<le> 2 powi float_exponent q"
      using ke by (intro power_int_increasing) simp_all
    ultimately show ?thesis by linarith
  qed
qed

lemma powi_shift: "(2::rat) powi (k - int n) = 2 powi k / 2 ^ n"
proof -
  have "(2::rat) powi (k - int n) = 2 powi k * 2 powi (- int n)"
    using power_int_add [of "2::rat" k "- int n"] by simp
  then show ?thesis
    by (simp add: power_int_minus field_simps)
qed

lemma two_divisions_above:
  fixes x :: rat and j :: int
  assumes x: "2 powi (- 1000) \<le> x" and x53: "x < 2 ^ 58"
    and gap: "of_int (15 * j) + ulp (x / 60) / 2 < x / 60"
  shows "of_int j < fl (fl (x / 60) / 15)"
proof -
  define q1 where "q1 = x / 60"
  define e1 where "e1 = float_exponent q1"
  define m1 where "m1 = fl q1"
  define q2 where "q2 = m1 / 15"
  have "(0::rat) < 2 powi (- 1000)" by simp
  then have xpos: "0 < x" using x by (rule less_le_trans)
  have q1pos: "0 < q1" using xpos by (simp add: q1_def)
  then have q10: "q1 \<noteq> 0" by simp
  have "(2::rat) powi (- 1000 - int 6) = 2 powi (- 1000) / 2 ^ 6"
    by (rule powi_shift)
  then have "(2::rat) powi (- 1006) = 2 powi (- 1000) / 64" by simp
  also have "\<dots> \<le> x / 64" using x by (simp add: divide_right_mono)
  also have "\<dots> \<le> q1" using xpos by (simp add: q1_def)
  finally have q1lo: "2 powi (- 1006) \<le> q1" .
  then have e1lo: "- 1006 \<le> e1"
    unfolding e1_def using q10 q1pos by (intro float_exponent_ge) simp_all
  have q153: "\<bar>q1\<bar> < 2 ^ 53" using x53 xpos by (simp add: q1_def)
  then have "\<bar>q1\<bar> < 2 powi 53" by simp
  with q10 have e1hi: "e1 < 53"
    unfolding e1_def by (rule float_exponent_less)
  have "(2::rat) powi (- 1022) \<le> 2 powi (- 1006)"
    by (rule power_int_increasing) simp_all
  then have "2 powi (- 1022) \<le> \<bar>q1\<bar>" using q1lo by simp
  then have u1: "ulp q1 = 2 powi (e1 - 52)"
    unfolding e1_def by (rule ulp_normal)
  have "of_int (15 * j) + ulp q1 \<le> fl q1"
    using q10 q153 gap unfolding q1_def by (rule fl_gt_int)
  then have m1lo: "of_int (15 * j) + ulp q1 \<le> m1" by (simp only: m1_def)
  have "q1 < 2 powi (e1 + 1)"
    using float_exponent_bounds(2) [OF q10] q1pos by (simp add: e1_def)
  then have "q1 \<le> 2 powi (e1 + 1)" by simp
  with q1pos have "fl q1 \<le> 2 powi (e1 + 1)"
    using e1lo by (intro fl_le_powi) simp_all
  then have m1hi: "m1 \<le> 2 powi (e1 + 1)" by (simp only: m1_def)
  have "2 powi e1 \<le> q1"
    using float_exponent_bounds(1) [OF q10] q1pos by (simp add: e1_def)
  then have "2 powi e1 \<le> fl q1"
    using e1lo by (intro fl_ge_powi) simp_all
  then have "2 powi e1 \<le> m1" by (simp only: m1_def)
  moreover have "(0::rat) < 2 powi e1" by simp
  ultimately have m1pos: "0 < m1" by linarith
  then have q2pos: "0 < q2" by (simp add: q2_def)
  then have q20: "q2 \<noteq> 0" by simp
  have "(2::rat) powi (e1 + 1 - int 3) = 2 powi (e1 + 1) / 2 ^ 3"
    by (rule powi_shift)
  then have p8: "(2::rat) powi (e1 - 2) = 2 powi (e1 + 1) / 8" by simp
  have "q2 \<le> 2 powi (e1 + 1) / 15"
    using m1hi by (simp add: q2_def divide_right_mono)
  also have "\<dots> < 2 powi (e1 + 1) / 8"
    by (intro divide_strict_left_mono) simp_all
  finally have q2hi: "q2 < 2 powi (e1 - 2)" by (simp only: p8)
  then have aq2: "\<bar>q2\<bar> < 2 powi (e1 - 2)" using q2pos by simp
  have "(2::rat) powi (e1 - 2) \<le> 2 powi 53"
    using e1hi by (intro power_int_increasing) simp_all
  with aq2 have "\<bar>q2\<bar> < 2 powi 53" by (rule less_le_trans)
  then have q253: "\<bar>q2\<bar> < 2 ^ 53" by simp
  have "ulp q2 \<le> 2 powi (e1 - 2 - 53)"
    using q20 aq2 e1lo by (intro ulp_le) simp_all
  moreover have "(2::rat) powi (e1 - 52 - int 3) = 2 powi (e1 - 52) / 2 ^ 3"
    by (rule powi_shift)
  ultimately have u2: "ulp q2 \<le> ulp q1 / 8" by (simp add: u1)
  have u1pos: "0 < ulp q1" by (rule ulp_pos)
  have "of_int j + ulp q1 / 15 \<le> q2"
    using m1lo by (simp add: q2_def field_simps)
  moreover have "ulp q2 / 2 < ulp q1 / 15"
    using u2 u1pos by simp
  ultimately have "of_int j + ulp q2 / 2 < q2" by linarith
  with q20 q253 have "of_int j + ulp q2 \<le> fl q2"
    by (rule fl_gt_int)
  moreover have "0 < ulp q2" by (rule ulp_pos)
  ultimately have "of_int j < fl q2" by linarith
  then show ?thesis
    by (simp only: q2_def m1_def q1_def)
qed

lemma two_divisions_below:
  fixes x :: rat and k :: int
  assumes x: "0 < x" and xk: "x \<le> of_int (900 * k)" and k: "15 * k < 2 ^ 53"
  shows "fl (fl (x / 60) / 15) \<le> of_int k"
proof -
  define q1 where "q1 = x / 60"
  define m1 where "m1 = fl q1"
  have q1: "0 < q1" "q1 \<le> of_int (15 * k)"
    using x xk by (simp_all add: q1_def)
  have "rat_of_int (15 * k) < of_int (2 ^ 53)"
    using k by (simp only: of_int_less_iff)
  then have k': "rat_of_int (15 * k) < 2 ^ 53" by simp
  with q1 have "\<bar>q1\<bar> < 2 ^ 53" by simp
  then have "fl q1 \<le> of_int (15 * k)"
    using q1(2) by (rule fl_le_int)
  then have m1: "m1 \<le> of_int (15 * k)" by (simp only: m1_def)
  have m10: "0 \<le> m1"
    unfolding m1_def using q1(1) by (intro fl_nonneg) simp
  have q2: "m1 / 15 \<le> of_int k"
    using m1 by simp
  have "\<bar>m1 / 15\<bar> < 2 ^ 53"
    using m10 m1 k' by simp
  then have "fl (m1 / 15) \<le> of_int k"
    using q2 by (rule fl_le_int)
  then show ?thesis
    by (simp only: m1_def q1_def)
qed

lemma ceil_divisions_int:
  fixes s :: int
  assumes "0 < s" and "s < 60 * 2 ^ 48"
  shows "\<lceil>fl (fl (of_int s / 60) / 15)\<rceil> = (s + 899) div 900"
proof -
  define j where "j = (s - 1) div 900"
  define x :: rat where "x = of_int s"
  have j0: "0 \<le> j" using assms(1) by (simp add: j_def)
  define r where "r = (s - 1) mod 900"
  have dm: "900 * j + r = s - 1"
    unfolding j_def r_def by (rule mult_div_mod_eq)
  have r: "0 \<le> r" "r < 900" by (simp_all add: r_def)
  have sj: "900 * j + 1 \<le> s" "s \<le> 900 * (j + 1)"
    using dm r by simp_all
  have xs: "x < 60 * 2 ^ 48"
  proof -
    have "rat_of_int s < of_int (60 * 2 ^ 48)"
      using assms(2) by (simp only: of_int_less_iff)
    then show ?thesis by (simp add: x_def)
  qed
  have x1: "1 \<le> x" using assms(1) by (simp add: x_def)
  have xpos: "0 < x" using x1 by simp
  have "(2::rat) powi (- 1000) \<le> 2 powi 0"
    by (rule power_int_increasing) simp_all
  then have xlo: "2 powi (- 1000) \<le> x" using x1 by simp
  have x58: "x < 2 ^ 58" using xs by simp
  have q48: "\<bar>x / 60\<bar> < 2 powi 48" using xs xpos by simp
  have "x / 60 \<noteq> 0" using xpos by simp
  then have "ulp (x / 60) \<le> 2 powi (48 - 53)"
    using q48 by (rule ulp_le) simp
  moreover have "(2::rat) powi (48 - 53) = 1 / 32"
    by (simp add: power_int_minus)
  ultimately have u: "ulp (x / 60) \<le> 1 / 32" by simp
  have "rat_of_int (900 * j + 1) \<le> of_int s"
    using sj(1) by (simp only: of_int_le_iff)
  then have "of_int (15 * j) + 1 / 60 \<le> x / 60"
    by (simp add: x_def)
  then have gap: "of_int (15 * j) + ulp (x / 60) / 2 < x / 60"
    using u by linarith
  have lo: "of_int j < fl (fl (x / 60) / 15)"
    using xlo x58 gap by (rule two_divisions_above)
  have "rat_of_int s \<le> of_int (900 * (j + 1))"
    using sj(2) by (simp only: of_int_le_iff)
  then have xk: "x \<le> of_int (900 * (j + 1))" by (simp only: x_def)
  have "15 * (j + 1) < 2 ^ 53" using sj(1) assms(2) by simp
  with xpos xk have hi: "fl (fl (x / 60) / 15) \<le> of_int (j + 1)"
    by (rule two_divisions_below)
  have "of_int (j + 1) - 1 < fl (fl (x / 60) / 15)"
    using lo by simp
  then have "\<lceil>fl (fl (x / 60) / 15)\<rceil> = j + 1"
    using hi by (rule ceiling_unique)
  moreover have "(s + 899) div 900 = j + 1"
  proof -
    have "s + 899 = (s - 1) + 900" by simp
    then have "(s + 899) div 900 = ((s - 1) + 900) div 900" by (rule arg_cong)
    then show ?thesis by (simp add: j_def)
  qed
  ultimately show ?thesis by (simp add: x_def)
qed











section \<open>Rounding durations\<close>

lemma round_up_ge: "(s::int) \<le> 900 * ((s + 899) div 900)"
proof -
  have "(s + 899) mod 900 < 900" by simp
  moreover have "900 * ((s + 899) div 900) + (s + 899) mod 900 = s + 899"
    by (rule mult_div_mod_eq)
  ultimately show ?thesis by linarith
qed

lemma round_up_multiple: "900 * ((900 * j + 899) div 900) = 900 * (j::int)"
proof -
  have "(900 * j + 899) div 900 = j"
    by linarith
  then show ?thesis by simp
qed

lemma round_up_least:
  assumes "(s::int) \<le> m" and "900 dvd m"
  shows "900 * ((s + 899) div 900) \<le> m"
proof -
  from assms(2) obtain j where m: "m = 900 * j" ..
  have "(s + 899) div 900 \<le> (900 * j + 899) div 900"
    using assms(1) by (intro zdiv_mono1) (simp_all add: m)
  then have "900 * ((s + 899) div 900) \<le> 900 * ((900 * j + 899) div 900)"
    by simp
  then show ?thesis
    by (simp only: round_up_multiple m)
qed

lemma round_seconds_eq:
  fixes s :: int
  assumes "0 < s" and "s < 60 * 2 ^ 48"
  shows "round_seconds_to_15min (of_int s) = 900 * ((s + 899) div 900)"
  using assms by (simp add: round_seconds_to_15min_def Let_def ceil_divisions_int)


lemma round_seconds_multiple: "900 dvd round_seconds_to_15min q"
  by (simp add: round_seconds_to_15min_def Let_def)

lemma round_seconds_nonneg: "0 \<le> round_seconds_to_15min q"
proof -
  have "0 \<le> fl (fl (q / 60) / 15)" if "0 < q"
    using that by (intro fl_nonneg divide_nonneg_nonneg) simp_all
  then show ?thesis
    by (auto simp add: round_seconds_to_15min_def Let_def)
qed

lemma round_seconds_int_cases:
  "round_seconds_to_15min_int s =
     (if 0 < s \<and> 2 ^ 1024 \<le> fl (of_int s / 60) then Inl OverflowError
      else Inr (round_seconds_to_15min (of_int s)))"
  by (simp add: round_seconds_to_15min_int_def round_seconds_to_15min_def Let_def)

lemma int_division_in_range:
  fixes s :: int
  assumes "0 < s" and "s < 2 ^ 1024"
  shows "fl (of_int s / 60) < 2 ^ 1024"
proof -
  have "rat_of_int s < of_int (2 ^ 1024)"
    using assms(2) by (simp only: of_int_less_iff)
  then have s: "rat_of_int s < 2 powi 1024" by simp
  have p: "(2::rat) powi (1024 - int 5) = 2 powi 1024 / 2 ^ 5"
    by (rule powi_shift)
  have "rat_of_int s / 60 \<le> rat_of_int s / 2 ^ 5"
    using assms(1) by (intro divide_left_mono) simp_all
  also have "\<dots> \<le> 2 powi 1024 / 2 ^ 5"
    using s by (intro divide_right_mono) simp_all
  also have "\<dots> = 2 powi 1019"
    using p by simp
  finally have "rat_of_int s / 60 \<le> 2 powi 1019" .
  moreover have "0 < rat_of_int s / 60" using assms(1) by simp
  ultimately have "fl (of_int s / 60) \<le> 2 powi 1019"
    by (intro fl_le_powi) simp_all
  also have "(2::rat) powi 1019 < 2 powi 1024"
    by (rule power_int_strict_increasing) simp_all
  finally show ?thesis by simp
qed

text \<open>
  Claim C1, as amended. On an integer \<open>s \<le> 0\<close> the function returns 0. On an
  integer \<open>s\<close> with \<open>0 < s < 60 * 2 ^ 48\<close> it returns the least non-negative multiple
  of 900 that is at least \<open>s\<close>: the result is at least \<open>s\<close>, no multiple of 900 from
  \<open>s\<close> on is smaller, and a multiple of 900 is returned as it is. On every integer it
  either raises \<^verbatim>\<open>OverflowError\<close> or returns a non-negative multiple of 900, and it
  does not raise below \<open>2 ^ 1024\<close>. The bound \<open>60 * 2 ^ 48\<close> is where the quotient
  \<open>s / 60\<close> reaches \<open>2 ^ 48\<close> and the spacing of the floats \<open>1 / 16\<close>: from there
  on the two divisions can round \<open>900 * k + 1\<close> down to \<open>k\<close>.
\<close>

theorem round_up_in_range:
  fixes s :: int
  shows "(s \<le> 0 \<longrightarrow> round_seconds_to_15min_int s = Inr 0) \<and>
         (0 < s \<and> s < 60 * 2 ^ 48 \<longrightarrow>
            (\<exists>r. round_seconds_to_15min_int s = Inr r \<and> s \<le> r \<and>
                 (\<forall>m. 0 \<le> m \<and> 900 dvd m \<and> s \<le> m \<longrightarrow> r \<le> m) \<and>
                 (900 dvd s \<longrightarrow> r = s))) \<and>
         (round_seconds_to_15min_int s = Inl OverflowError \<or>
          (\<exists>r. round_seconds_to_15min_int s = Inr r \<and> 900 dvd r \<and> 0 \<le> r)) \<and>
         (s < 2 ^ 1024 \<longrightarrow> round_seconds_to_15min_int s \<noteq> Inl OverflowError)"
proof (intro conjI impI)
  assume "s \<le> 0"
  then show "round_seconds_to_15min_int s = Inr 0"
    by (simp add: round_seconds_to_15min_int_def)
next
  assume range: "0 < s \<and> s < 60 * 2 ^ 48"
  then have "s < 2 ^ 1024" by simp
  with range have "fl (of_int s / 60) < 2 ^ 1024"
    by (intro int_division_in_range) simp_all
  then have int: "round_seconds_to_15min_int s = Inr (round_seconds_to_15min (of_int s))"
    by (simp add: round_seconds_int_cases)
  have eq: "round_seconds_to_15min (of_int s) = 900 * ((s + 899) div 900)"
    using range by (simp add: round_seconds_eq)
  have "s \<le> 900 * ((s + 899) div 900)"
    by (rule round_up_ge)
  moreover have "\<forall>m. 0 \<le> m \<and> 900 dvd m \<and> s \<le> m \<longrightarrow> 900 * ((s + 899) div 900) \<le> m"
    by (simp add: round_up_least)
  moreover have "900 * ((s + 899) div 900) = s" if "900 dvd s"
  proof -
    from that obtain j where "s = 900 * j" ..
    then show ?thesis
      by (simp only: round_up_multiple)
  qed
  ultimately show "\<exists>r. round_seconds_to_15min_int s = Inr r \<and> s \<le> r \<and>
      (\<forall>m. 0 \<le> m \<and> 900 dvd m \<and> s \<le> m \<longrightarrow> r \<le> m) \<and> (900 dvd s \<longrightarrow> r = s)"
    unfolding int eq by blast
next
  show "round_seconds_to_15min_int s = Inl OverflowError \<or>
      (\<exists>r. round_seconds_to_15min_int s = Inr r \<and> 900 dvd r \<and> 0 \<le> r)"
    by (simp add: round_seconds_int_cases round_seconds_multiple round_seconds_nonneg)
next
  assume s: "s < 2 ^ 1024"
  show "round_seconds_to_15min_int s \<noteq> Inl OverflowError"
  proof (cases "0 < s")
    case True
    then have "fl (of_int s / 60) < 2 ^ 1024"
      using s by (rule int_division_in_range)
    then show ?thesis
      by (simp add: round_seconds_int_cases)
  next
    case False
    then show ?thesis
      by (simp add: round_seconds_int_cases)
  qed
qed

theorem round_up_in_range_witness:
  "round_seconds_to_15min_int (- 100) = Inr 0 \<and>
   round_seconds_to_15min_int 0 = Inr 0 \<and>
   round_seconds_to_15min_int 900 = Inr 900 \<and>
   round_seconds_to_15min_int 3600 = Inr 3600 \<and>
   (\<exists>r. round_seconds_to_15min_int 60 = Inr r \<and> 60 \<le> r \<and> r \<le> 900) \<and>
   (\<exists>r. round_seconds_to_15min_int 960 = Inr r \<and> 960 \<le> r \<and> r \<le> 1800) \<and>
   (\<exists>r. round_seconds_to_15min_int 2640 = Inr r \<and> 2640 \<le> r \<and> r \<le> 2700)"
proof -
  have "round_seconds_to_15min_int (- 100) = Inr 0"
    using round_up_in_range [of "- 100"] by simp
  moreover have "round_seconds_to_15min_int 0 = Inr 0"
    using round_up_in_range [of 0] by simp
  moreover have "round_seconds_to_15min_int 900 = Inr 900"
  proof -
    have "\<exists>r. round_seconds_to_15min_int 900 = Inr r \<and> 900 \<le> r \<and>
        (\<forall>m. 0 \<le> m \<and> 900 dvd m \<and> 900 \<le> m \<longrightarrow> r \<le> m) \<and> (900 dvd (900::int) \<longrightarrow> r = 900)"
      using round_up_in_range [of 900] by simp
    then show ?thesis by auto
  qed
  moreover have "round_seconds_to_15min_int 3600 = Inr 3600"
  proof -
    have "\<exists>r. round_seconds_to_15min_int 3600 = Inr r \<and> 3600 \<le> r \<and>
        (\<forall>m. 0 \<le> m \<and> 900 dvd m \<and> 3600 \<le> m \<longrightarrow> r \<le> m) \<and> (900 dvd (3600::int) \<longrightarrow> r = 3600)"
      using round_up_in_range [of 3600] by simp
    then show ?thesis by auto
  qed
  moreover have "\<exists>r. round_seconds_to_15min_int 60 = Inr r \<and> 60 \<le> r \<and> r \<le> 900"
  proof -
    have "\<exists>r. round_seconds_to_15min_int 60 = Inr r \<and> 60 \<le> r \<and>
        (\<forall>m. 0 \<le> m \<and> 900 dvd m \<and> 60 \<le> m \<longrightarrow> r \<le> m)"
      using round_up_in_range [of 60] by simp
    then obtain r where r: "round_seconds_to_15min_int 60 = Inr r" "60 \<le> r"
      "\<forall>m. 0 \<le> m \<and> 900 dvd m \<and> 60 \<le> m \<longrightarrow> r \<le> m"
      by blast
    from r(3) have "0 \<le> (900::int) \<and> 900 dvd (900::int) \<and> 60 \<le> (900::int) \<longrightarrow> r \<le> 900" ..
    then have "r \<le> 900" by simp
    with r(1,2) show ?thesis by blast
  qed
  moreover have "\<exists>r. round_seconds_to_15min_int 960 = Inr r \<and> 960 \<le> r \<and> r \<le> 1800"
  proof -
    have "\<exists>r. round_seconds_to_15min_int 960 = Inr r \<and> 960 \<le> r \<and>
        (\<forall>m. 0 \<le> m \<and> 900 dvd m \<and> 960 \<le> m \<longrightarrow> r \<le> m)"
      using round_up_in_range [of 960] by simp
    then obtain r where r: "round_seconds_to_15min_int 960 = Inr r" "960 \<le> r"
      "\<forall>m. 0 \<le> m \<and> 900 dvd m \<and> 960 \<le> m \<longrightarrow> r \<le> m"
      by blast
    from r(3) have "0 \<le> (1800::int) \<and> 900 dvd (1800::int) \<and> 960 \<le> (1800::int) \<longrightarrow> r \<le> 1800" ..
    then have "r \<le> 1800" by simp
    with r(1,2) show ?thesis by blast
  qed
  moreover have "\<exists>r. round_seconds_to_15min_int 2640 = Inr r \<and> 2640 \<le> r \<and> r \<le> 2700"
  proof -
    have "\<exists>r. round_seconds_to_15min_int 2640 = Inr r \<and> 2640 \<le> r \<and>
        (\<forall>m. 0 \<le> m \<and> 900 dvd m \<and> 2640 \<le> m \<longrightarrow> r \<le> m)"
      using round_up_in_range [of 2640] by simp
    then obtain r where r: "round_seconds_to_15min_int 2640 = Inr r" "2640 \<le> r"
      "\<forall>m. 0 \<le> m \<and> 900 dvd m \<and> 2640 \<le> m \<longrightarrow> r \<le> m"
      by blast
    from r(3) have "0 \<le> (2700::int) \<and> 900 dvd (2700::int) \<and> 2640 \<le> (2700::int) \<longrightarrow> r \<le> 2700" ..
    then have "r \<le> 2700" by simp
    with r(1,2) show ?thesis by blast
  qed
  ultimately show ?thesis by blast
qed

lemma round_seconds_examples:
  "round_seconds_to_15min 60 = 900" "round_seconds_to_15min 960 = 1800"
  "round_seconds_to_15min 2640 = 2700" "round_seconds_to_15min 3600 = 3600"
  using round_seconds_eq [of 60] round_seconds_eq [of 960] round_seconds_eq [of 2640]
    round_seconds_eq [of 3600]
  by simp_all

text \<open>
  Division of integers raises when the quotient is not a finite float.
\<close>

lemma round_seconds_overflow_example:
  "round_seconds_to_15min_int (60 * 2 ^ 1024) = Inl OverflowError"
proof -
  have "(2::rat) powi 1024 \<le> fl (2 powi 1024)"
    by (rule fl_ge_powi) simp_all
  then have "(2::rat) ^ 1024 \<le> fl (of_int (60 * 2 ^ 1024) / 60)"
    by simp
  moreover have "(0::int) < 60 * 2 ^ 1024" by simp
  ultimately show ?thesis
    by (simp only: round_seconds_int_cases simp_thms if_True)
qed

text \<open>
  The claim as stated, for every integer, fails at \<open>s = 60 * 2 ^ 48 + 841\<close>, which is
  \<open>900 * 18764998447378 + 1\<close>: \<open>s / 60\<close> lies between the neighbouring floats
  \<open>2 ^ 48 + 14\<close> and \<open>2 ^ 48 + 14 + 1 / 16\<close> and rounds to the lower one, so the
  result is \<open>s - 1\<close>.
\<close>

theorem round_up_huge_counterexample:
  "round_seconds_to_15min_int 16888498602640201 = Inr 16888498602640200"
  by code_simp

section \<open>Stopping\<close>

lemma stop_current_idle: "current data = None \<Longrightarrow> stop_current hhmm t data = (False, data)"
  by (simp add: stop_current_def)

lemma stop_current_running:
  "current data = Some c \<Longrightarrow> fst (stop_current hhmm t data) = True"
  by (simp add: stop_current_def Let_def)

text \<open>
  Claim C4. On a store without a current session, \<open>stop_current\<close> returns the store
  as it is, with the flag \<open>False\<close>; on a store with a session the flag is \<open>True\<close>, so
  the two outcomes are told apart by the flag, and neither is an error. \<open>cmd_stop\<close>
  passes the flag on and leaves the file alone.
\<close>

theorem stop_idle_unchanged:
  "(current data = None \<longrightarrow>
      stop_current hhmm t data = (False, data) \<and> cmd_stop hhmm t data = (False, data)) \<and>
   (current data \<noteq> None \<longrightarrow>
      fst (stop_current hhmm t data) = True \<and> fst (cmd_stop hhmm t data) = True)"
  by (auto simp: stop_current_def cmd_stop_def Let_def split: option.splits)

theorem stop_idle_unchanged_witness:
  "current idle_store = None \<and> stop_current hhmm_utc 1900 idle_store = (False, idle_store) \<and>
   cmd_stop hhmm_utc 1900 idle_store = (False, idle_store) \<and>
   current running_store \<noteq> None \<and> fst (stop_current hhmm_utc 1900 running_store) = True"
  using stop_idle_unchanged [of idle_store hhmm_utc 1900]
    stop_idle_unchanged [of running_store hhmm_utc 1900]
  by (simp add: idle_store_def running_store_def)

lemma stop_current_Some:
  assumes "current data = Some c"
  shows "stop_current hhmm t data =
    (True, data \<lparr> history := history data @
       [\<lparr> entry_customer = customer c, entry_project = project c,
          duration_seconds = round_seconds_to_15min (max 0 (fl (t - fl (start_timestamp c)))),
          raw_seconds = max 0 (fl (t - fl (start_timestamp c))),
          entry_notes = Some (case session_notes c of None \<Rightarrow> [] | Some l \<Rightarrow> l),
          start_str = hhmm (start_timestamp c), end_str = hhmm t \<rparr>],
       current := None \<rparr>)"
  using assms by (simp add: stop_current_def Let_def max_def not_less)

lemma committed_entry_Some:
  assumes "current data = Some c"
  shows "committed_entry hhmm t data =
       \<lparr> entry_customer = customer c, entry_project = project c,
          duration_seconds = round_seconds_to_15min (max 0 (fl (t - fl (start_timestamp c)))),
          raw_seconds = max 0 (fl (t - fl (start_timestamp c))),
          entry_notes = Some (case session_notes c of None \<Rightarrow> [] | Some l \<Rightarrow> l),
          start_str = hhmm (start_timestamp c), end_str = hhmm t \<rparr>"
  by (simp add: committed_entry_def stop_current_Some [OF assms])

lemma raw_regression: "t < t0 \<Longrightarrow> max 0 (fl (t - t0)) = 0"
  using fl_nonpos [of "t - t0"] by (simp add: max_def)

lemma raw_elapsed: "t0 \<le> t \<Longrightarrow> max 0 (fl (t - t0)) = fl (t - t0)"
  using fl_nonneg [of "t - t0"] by (simp add: max_def)






lemma round_seconds_900: "round_seconds_to_15min 900 = 900"
  using round_seconds_eq [of 900] by simp

lemma round_seconds_60: "round_seconds_to_15min 60 = 900"
  using round_seconds_eq [of 60] by simp

lemma fl_numeral: "numeral w < (2 ^ 53 :: int) \<Longrightarrow> fl (numeral w) = numeral w"
  using fl_of_int [of "numeral w"] by simp


lemma fl_examples:
  "fl (1801 / 2) = 1801 / 2" "fl (121 / 2) = 121 / 2" "fl 9007199254740993 = 9007199254740992"
  by code_simp+









lemma is_whole_of_int: "is_whole (of_int n)"
  by (simp add: is_whole_def)

text \<open>
  Claim C9, as amended. The committed \<open>raw_seconds\<close> is the float difference of the
  clock reading and the start (converted to float), clamped below at 0, neither
  rounded to a whole number nor truncated. It is a whole number exactly when the clock
  reading is before the start or that difference is whole, which it is when the exact
  difference is a whole number below \<open>2 ^ 53\<close>. The conversion leaves a whole start
  below \<open>2 ^ 53\<close> as it is.
\<close>

theorem raw_seconds_unrounded:
  assumes "current data = Some c"
    and "finite_float (fl (start_timestamp c))"
    and "finite_float (fl (now - fl (start_timestamp c)))"
  shows "raw_seconds (committed_entry hhmm now data) =
           max 0 (fl (now - fl (start_timestamp c))) \<and>
         (is_whole (raw_seconds (committed_entry hhmm now data)) \<longleftrightarrow>
            now < fl (start_timestamp c) \<or> is_whole (fl (now - fl (start_timestamp c)))) \<and>
         (is_whole (now - fl (start_timestamp c)) \<and> \<bar>now - fl (start_timestamp c)\<bar> < 2 ^ 53 \<longrightarrow>
            raw_seconds (committed_entry hhmm now data) = max 0 (now - fl (start_timestamp c)) \<and>
            is_whole (raw_seconds (committed_entry hhmm now data))) \<and>
         (is_whole (start_timestamp c) \<and> \<bar>start_timestamp c\<bar> < 2 ^ 53 \<longrightarrow>
            fl (start_timestamp c) = start_timestamp c)"
proof -
  note e = committed_entry_Some [OF assms(1), of hhmm now]
  let ?d = "now - fl (start_timestamp c)"
  have raw: "raw_seconds (committed_entry hhmm now data) = max 0 (fl ?d)"
    by (simp add: e)
  have iff: "is_whole (max 0 (fl ?d)) \<longleftrightarrow> now < fl (start_timestamp c) \<or> is_whole (fl ?d)"
  proof (cases "now < fl (start_timestamp c)")
    case True
    then show ?thesis
      using is_whole_of_int [of 0] by (simp add: raw_regression)
  next
    case False
    then show ?thesis by (simp add: raw_elapsed)
  qed
  have fixed: "fl q = q" if "is_whole q \<and> \<bar>q\<bar> < 2 ^ 53" for q
  proof -
    define n where "n = \<lfloor>q\<rfloor>"
    from that have "of_int \<lfloor>q\<rfloor> = q" unfolding is_whole_def by (rule conjunct1)
    then have q: "q = of_int n" unfolding n_def by (rule sym)
    have "\<bar>rat_of_int n\<bar> < 2 ^ 53" using that by (simp add: q)
    then have "\<bar>n\<bar> < 2 ^ 53"
      by (metis of_int_abs of_int_less_iff of_int_numeral of_int_power)
    then show ?thesis unfolding q by (rule fl_of_int)
  qed
  have whole: "max 0 (fl ?d) = max 0 ?d \<and> is_whole (max 0 (fl ?d))"
    if w: "is_whole ?d \<and> \<bar>?d\<bar> < 2 ^ 53"
  proof -
    have f: "fl ?d = ?d" using w by (rule fixed)
    have "is_whole (max 0 ?d)"
      using w is_whole_of_int [of 0] by (simp add: max_def)
    then show ?thesis by (simp only: f simp_thms)
  qed
  show ?thesis
    unfolding raw using iff whole fixed [of "start_timestamp c"] by blast
qed

theorem raw_seconds_unrounded_witness:
  "current running_store \<noteq> None \<and>
   raw_seconds (committed_entry hhmm_utc 1060 running_store) = 60 \<and>
   is_whole (raw_seconds (committed_entry hhmm_utc 1060 running_store)) \<and>
   current huge_start_store \<noteq> None \<and>
   raw_seconds (committed_entry hhmm_utc 9007199254740994 huge_start_store) = 2"
proof -
  have r: "current running_store = Some \<lparr> customer = ''Test'', project = ''Proj'',
      start_timestamp = 1000, session_notes = Some [''First note''] \<rparr>"
    by (simp add: running_store_def)
  have g: "current huge_start_store = Some \<lparr> customer = ''Test'', project = ''Proj'',
      start_timestamp = 9007199254740993, session_notes = Some [] \<rparr>"
    by (simp add: huge_start_store_def)
  have f: "finite_float (fl (start_timestamp \<lparr> customer = ''Test'', project = ''Proj'',
      start_timestamp = 1000, session_notes = Some [''First note''] \<rparr>))"
    by (simp add: finite_float_def fl_numeral)
  have f1: "finite_float (fl (1060 - fl (start_timestamp \<lparr> customer = ''Test'', project = ''Proj'',
      start_timestamp = 1000, session_notes = Some [''First note''] \<rparr>)))"
    by (simp add: finite_float_def fl_numeral)
  have h: "finite_float (fl (start_timestamp \<lparr> customer = ''Test'', project = ''Proj'',
      start_timestamp = 9007199254740993, session_notes = Some [] \<rparr>))"
    by (simp add: finite_float_def fl_examples)
  have h1: "finite_float (fl (9007199254740994 - fl (start_timestamp \<lparr> customer = ''Test'',
      project = ''Proj'', start_timestamp = 9007199254740993, session_notes = Some [] \<rparr>)))"
    by (simp add: finite_float_def fl_examples fl_numeral)
  note a = raw_seconds_unrounded [OF r f f1, where hhmm = hhmm_utc]
  note b = raw_seconds_unrounded [OF g h h1, where hhmm = hhmm_utc]
  have w: "is_whole (60::rat)" using is_whole_of_int [of 60] by simp
  have a1: "raw_seconds (committed_entry hhmm_utc 1060 running_store) = 60"
    using a by (simp add: fl_numeral)
  have b1: "raw_seconds (committed_entry hhmm_utc 9007199254740994 huge_start_store) = 2"
    using b by (simp add: fl_examples fl_numeral)
  show ?thesis
    using a1 b1 w r g by simp
qed

text \<open>
  The claim as stated fails for a session started at 1000 and stopped at 1060.5:
  \<open>raw_seconds\<close> is 60.5.
\<close>

theorem raw_seconds_fractional_counterexample:
  "raw_seconds (committed_entry hhmm_utc (2121 / 2) running_store) = 121 / 2 \<and>
   \<not> is_whole (raw_seconds (committed_entry hhmm_utc (2121 / 2) running_store))"
  by code_simp

section \<open>Notes and starting\<close>




text \<open>
  Claim C5, as amended. \<open>cmd_note\<close> refuses with the message that no timer is running
  when there is no current session, and with the message that the note cannot be empty
  when there is a session and no argument was given; in both cases the file is as it
  was. With a session and a non-empty joined text, blank or not, it appends the text
  after the notes already there.
\<close>

theorem note_appended_or_refused:
  "(current disk = None \<longrightarrow> cmd_note args disk = (No_timer_running, disk)) \<and>
   (current disk \<noteq> None \<and> args = [] \<longrightarrow> cmd_note args disk = (Note_cannot_be_empty, disk)) \<and>
   (\<forall>c. current disk = Some c \<and> args \<noteq> [] \<and> join '' '' args \<noteq> [] \<longrightarrow>
      cmd_note args disk =
        (Note_added (join '' '' args),
         disk \<lparr> current := Some (c \<lparr> session_notes :=
            Some ((case session_notes c of None \<Rightarrow> [] | Some l \<Rightarrow> l) @ [join '' '' args]) \<rparr>) \<rparr>))"
  by (auto simp: cmd_note_def Let_def split: option.splits)

theorem note_appended_or_refused_witness:
  "cmd_note [''x''] idle_store = (No_timer_running, idle_store) \<and>
   cmd_note [] idle_store = (No_timer_running, idle_store) \<and>
   cmd_note [] running_store = (Note_cannot_be_empty, running_store) \<and>
   cmd_note [''Second'', ''note''] running_store =
     (Note_added ''Second note'',
      running_store \<lparr> current := Some \<lparr> customer = ''Test'', project = ''Proj'',
          start_timestamp = 1000, session_notes = Some [''First note'', ''Second note''] \<rparr> \<rparr>)"
proof -
  have r: "current running_store = Some \<lparr> customer = ''Test'', project = ''Proj'',
      start_timestamp = 1000, session_notes = Some [''First note''] \<rparr>"
    by (simp add: running_store_def)
  have i: "current idle_store = None"
    by (simp add: idle_store_def)
  show ?thesis
    using note_appended_or_refused [of idle_store "[''x'']"]
      note_appended_or_refused [of idle_store "[]"]
      note_appended_or_refused [of running_store "[]"]
      note_appended_or_refused [of running_store "[''Second'', ''note'']"]
    by (simp add: r i)
qed

text \<open>
  The claim as stated fails for a note of one space: it is appended like any other.
\<close>

theorem blank_note_counterexample:
  "cmd_note ['' ''] running_store =
     (Note_added '' '',
      running_store \<lparr> current := Some \<lparr> customer = ''Test'', project = ''Proj'',
          start_timestamp = 1000, session_notes = Some [''First note'', '' ''] \<rparr> \<rparr>) \<and>
   fst (cmd_note ['' ''] running_store) \<noteq> Note_cannot_be_empty \<and>
   snd (cmd_note ['' ''] running_store) \<noteq> running_store"
  by (simp add: cmd_note_def running_store_def Let_def)




lemma cmd_start_unresolved:
  "\<not> truthy cust \<or> \<not> truthy proj \<Longrightarrow>
     cmd_start hhmm t_stop t_start cust proj note disk = (Cancelled_or_invalid_input, disk)"
  by (cases cust; cases proj) (auto simp: cmd_start_def Let_def)

section \<open>The report\<close>

lemma summarises_Nil: "summarises [] []"
  by (simp add: summarises_def rows_of_def)

lemma seconds_of_snoc: "seconds_of (rs @ [r]) = seconds_of rs + fst (snd r)"
  by (simp add: seconds_of_def)

lemma seconds_of_Nil: "seconds_of [] = 0"
  by (simp add: seconds_of_def)

lemma seconds_of_single: "seconds_of [r] = fst (snd r)"
  by (simp add: seconds_of_def)

lemma rows_of_snoc:
  "rows_of key (rows @ [r]) = (if fst r = key then rows_of key rows @ [r] else rows_of key rows)"
  by (simp add: rows_of_def)

lemma labelled_rows_snoc:
  "labelled_rows key l (rows @ [r]) =
     (if fst r = key \<and> task_label (snd (snd r)) = l then labelled_rows key l rows @ [r]
      else labelled_rows key l rows)"
  by (simp add: labelled_rows_def rows_of_def)

lemma labelled_rows_Nil: "rows_of key rows = [] \<Longrightarrow> labelled_rows key l rows = []"
  by (simp add: labelled_rows_def)

lemma process_row_unfold:
  "process_row r summary =
     (let info = (case map_of summary (fst r) of
                    None \<Rightarrow> \<lparr> total_seconds = 0, tasks = [] \<rparr> | Some i \<Rightarrow> i);
          t = (case map_of (tasks info) (task_label (snd (snd r))) of None \<Rightarrow> 0 | Some t \<Rightarrow> t)
      in AList.update (fst r)
           (info \<lparr> total_seconds := total_seconds info + fst (snd r),
                   tasks := AList.update (task_label (snd (snd r))) (t + fst (snd r)) (tasks info) \<rparr>)
           summary)"
  by (cases r) (auto simp add: process_row_def process_entry_def task_label_def Let_def split: option.splits)

lemma summarises_step:
  assumes "summarises rows summary"
  shows "summarises (rows @ [r]) (process_row r summary)"
proof -
  obtain key s ns where r: "r = (key, s, ns)" by (cases r) auto
  define l where "l = task_label ns"
  have d: "distinct (map fst summary)"
    using assms by (simp add: summarises_def)
  have none_if: "map_of summary k = None" if "rows_of k rows = []" for k
    using assms that unfolding summarises_def by blast
  have some_if: "\<exists>g. map_of summary k = Some g \<and>
             total_seconds g = seconds_of (rows_of k rows) \<and>
             distinct (map fst (tasks g)) \<and>
             (\<forall>l. map_of (tasks g) l =
                    (if labelled_rows k l rows = [] then None
                     else Some (seconds_of (labelled_rows k l rows))))"
    if "rows_of k rows \<noteq> []" for k
    using assms that unfolding summarises_def by blast
  show ?thesis
  proof (cases "rows_of key rows = []")
    case True
    then have none: "map_of summary key = None"
      by (rule none_if)
    have upd: "process_row r summary =
        AList.update key \<lparr> total_seconds = s, tasks = [(l, s)] \<rparr> summary"
      by (simp add: process_row_unfold r none l_def)
    show ?thesis
      unfolding summarises_def
    proof (intro conjI allI impI)
      show "distinct (map fst (process_row r summary))"
        by (simp add: upd distinct_update d)
    next
      fix k assume "rows_of k (rows @ [r]) = []"
      then have "k \<noteq> key" "rows_of k rows = []"
        by (auto simp add: rows_of_snoc r split: if_splits)
      then show "map_of (process_row r summary) k = None"
        by (simp add: upd update_conv' none_if)
    next
      fix k assume ne: "rows_of k (rows @ [r]) \<noteq> []"
      show "\<exists>g. map_of (process_row r summary) k = Some g \<and>
             total_seconds g = seconds_of (rows_of k (rows @ [r])) \<and>
             distinct (map fst (tasks g)) \<and>
             (\<forall>l. map_of (tasks g) l =
                    (if labelled_rows k l (rows @ [r]) = [] then None
                     else Some (seconds_of (labelled_rows k l (rows @ [r])))))"
      proof (cases "k = key")
        case True
        then show ?thesis
          using \<open>rows_of key rows = []\<close> unfolding upd
          by (simp add: update_conv' rows_of_snoc labelled_rows_snoc labelled_rows_Nil
              r l_def seconds_of_single)
      next
        case False
        then have e1: "map_of (process_row r summary) k = map_of summary k"
          by (simp add: upd update_conv')
        have e2: "rows_of k (rows @ [r]) = rows_of k rows"
          and e3: "\<And>l. labelled_rows k l (rows @ [r]) = labelled_rows k l rows"
          using False by (simp_all add: rows_of_snoc labelled_rows_snoc r)
        from ne show ?thesis
          unfolding e1 e2 e3 by (rule some_if)
      qed
    qed
  next
    case False
    then obtain g where g: "map_of summary key = Some g"
      and tot: "total_seconds g = seconds_of (rows_of key rows)"
      and dg: "distinct (map fst (tasks g))"
      and buckets: "\<And>l. map_of (tasks g) l =
                    (if labelled_rows key l rows = [] then None
                     else Some (seconds_of (labelled_rows key l rows)))"
      using some_if [of key] by blast
    define t where "t = (case map_of (tasks g) l of None \<Rightarrow> 0 | Some t \<Rightarrow> t)"
    have t: "t = seconds_of (labelled_rows key l rows)"
      by (simp add: t_def buckets seconds_of_Nil)
    have upd: "process_row r summary =
        AList.update key (g \<lparr> total_seconds := total_seconds g + s,
                              tasks := AList.update l (t + s) (tasks g) \<rparr>) summary"
      by (simp add: process_row_unfold r g l_def t_def)
    show ?thesis
      unfolding summarises_def
    proof (intro conjI allI impI)
      show "distinct (map fst (process_row r summary))"
        by (simp add: upd distinct_update d)
    next
      fix k assume "rows_of k (rows @ [r]) = []"
      then have "k \<noteq> key" "rows_of k rows = []"
        by (auto simp add: rows_of_snoc r split: if_splits)
      then show "map_of (process_row r summary) k = None"
        by (simp add: upd update_conv' none_if)
    next
      fix k assume ne: "rows_of k (rows @ [r]) \<noteq> []"
      show "\<exists>g. map_of (process_row r summary) k = Some g \<and>
             total_seconds g = seconds_of (rows_of k (rows @ [r])) \<and>
             distinct (map fst (tasks g)) \<and>
             (\<forall>l. map_of (tasks g) l =
                    (if labelled_rows k l (rows @ [r]) = [] then None
                     else Some (seconds_of (labelled_rows k l (rows @ [r])))))"
      proof (cases "k = key")
        case True
        then show ?thesis
          unfolding upd
          by (simp add: update_conv' rows_of_snoc labelled_rows_snoc
              r l_def [symmetric] seconds_of_snoc tot t buckets dg distinct_update)
      next
        case False
        then have e1: "map_of (process_row r summary) k = map_of summary k"
          by (simp add: upd update_conv')
        have e2: "rows_of k (rows @ [r]) = rows_of k rows"
          and e3: "\<And>l. labelled_rows k l (rows @ [r]) = labelled_rows k l rows"
          using False by (simp_all add: rows_of_snoc labelled_rows_snoc r)
        from ne show ?thesis
          unfolding e1 e2 e3 by (rule some_if)
      qed
    qed
  qed
qed

lemma summarises_fold: "summarises rows (fold process_row rows [])"
proof (induction rows rule: rev_induct)
  case Nil
  show ?case by (simp add: summarises_Nil)
next
  case (snoc r rows)
  then show ?case by (simp add: summarises_step)
qed

lemma round_seconds_clamp: "round_seconds_to_15min (max 0 q) = round_seconds_to_15min q"
  by (simp add: round_seconds_to_15min_def max_def)

lemma process_history_row:
  "process_entry summary (entry_customer e) (entry_project e) (duration_seconds e)
     (case entry_notes e of None \<Rightarrow> [] | Some l \<Rightarrow> l) = process_row (history_row e) summary"
  by (simp add: process_row_def history_row_def)

lemma process_running_row:
  "process_entry summary (customer c) (project c)
     (round_seconds_to_15min (fl (now - fl (start_timestamp c))))
     (case session_notes c of None \<Rightarrow> [] | Some l \<Rightarrow> l) = process_row (running_row now c) summary"
  by (simp add: process_row_def running_row_def round_seconds_clamp)

lemma report_sorted_items:
  "sorted_items (fst (cmd_report lower now data)) =
     sort_key (\<lambda>x. (lower (fst (fst x)), lower (snd (fst x))))
       (fold process_row (report_rows now data) [])"
proof -
  have "fold (\<lambda>entry summary.
                 process_entry summary (entry_customer entry) (entry_project entry)
                   (duration_seconds entry)
                   (case entry_notes entry of None \<Rightarrow> [] | Some l \<Rightarrow> l)) es s =
        fold process_row (map history_row es) s" for es s
    by (induction es arbitrary: s) (simp_all add: process_history_row)
  then show ?thesis
    by (cases "current data")
      (simp_all add: cmd_report_def Let_def report_rows_def process_running_row)
qed

lemma summarises_sort_key:
  assumes "summarises rows summary"
  shows "summarises rows (sort_key f summary)"
proof -
  have d: "distinct (map fst summary)"
    using assms by (simp add: summarises_def)
  have "mset (map fst (sort_key f summary)) = mset (map fst summary)"
    by simp
  then have d': "distinct (map fst (sort_key f summary))"
    using d by (metis mset_eq_imp_distinct_iff)
  have "set (sort_key f summary) = set summary"
    by simp
  then have eq: "map_of (sort_key f summary) = map_of summary"
    using d d' by (simp add: map_of_inject_set)
  show ?thesis
    unfolding summarises_def eq using assms [unfolded summarises_def] d' by blast
qed

lemma report_summarises:
  "summarises (report_rows now data) (sorted_items (fst (cmd_report lower now data)))"
  by (simp add: report_sorted_items summarises_sort_key summarises_fold)

text \<open>
  Claim C6. In the report there is one group for every key \<open>(customer, project)\<close> that
  a row has and none for any other key; the total of a group is the sum of the seconds
  of its rows; within a group there is one task bucket for every label that a row of
  the group has, the label being the notes joined with a comma and a space or
  \<open>No Description\<close> for no notes, and the bucket holds the sum of the seconds of the
  rows with that label. The rows are the history entries and, when a session is
  running, the session billed as of now.
\<close>

theorem report_groups_sum_rows:
  "distinct (map fst (sorted_items (fst (cmd_report lower now data)))) \<and>
   (\<forall>key. rows_of key (report_rows now data) = [] \<longrightarrow>
      map_of (sorted_items (fst (cmd_report lower now data))) key = None) \<and>
   (\<forall>key. rows_of key (report_rows now data) \<noteq> [] \<longrightarrow>
      (\<exists>g. map_of (sorted_items (fst (cmd_report lower now data))) key = Some g \<and>
           total_seconds g = seconds_of (rows_of key (report_rows now data)) \<and>
           distinct (map fst (tasks g)) \<and>
           (\<forall>l. map_of (tasks g) l =
                  (if labelled_rows key l (report_rows now data) = [] then None
                   else Some (seconds_of (labelled_rows key l (report_rows now data)))))))"
  using report_summarises [of now data lower] unfolding summarises_def .

theorem report_groups_sum_rows_witness:
  "\<exists>g. map_of (sorted_items (fst (cmd_report ascii_lower 0 two_bug_fixes))) (''Acme'', ''Website'')
         = Some g \<and>
       total_seconds g = 2700 \<and> map_of (tasks g) ''Bug fix'' = Some 2700 \<and>
       map_of (tasks g) ''No Description'' = None"
proof -
  have rows: "report_rows 0 two_bug_fixes =
      [((''Acme'', ''Website''), 900, [''Bug fix'']), ((''Acme'', ''Website''), 1800, [''Bug fix''])]"
    by (simp add: report_rows_def two_bug_fixes_def history_row_def)
  have "rows_of (''Acme'', ''Website'') (report_rows 0 two_bug_fixes) \<noteq> []"
    by (simp add: rows rows_of_def)
  then obtain g where
    g: "map_of (sorted_items (fst (cmd_report ascii_lower 0 two_bug_fixes))) (''Acme'', ''Website'')
          = Some g"
    and t: "total_seconds g = seconds_of (rows_of (''Acme'', ''Website'') (report_rows 0 two_bug_fixes))"
    and b: "\<And>l. map_of (tasks g) l =
                  (if labelled_rows (''Acme'', ''Website'') l (report_rows 0 two_bug_fixes) = [] then None
                   else Some (seconds_of (labelled_rows (''Acme'', ''Website'') l (report_rows 0 two_bug_fixes))))"
    using report_groups_sum_rows [of ascii_lower 0 two_bug_fixes] by blast
  have "total_seconds g = 2700"
    by (simp add: t rows rows_of_def seconds_of_def)
  moreover have "map_of (tasks g) ''Bug fix'' = Some 2700"
    by (simp add: b rows rows_of_def labelled_rows_def seconds_of_def task_label_def)
  moreover have "map_of (tasks g) ''No Description'' = None"
    by (simp add: b rows rows_of_def labelled_rows_def seconds_of_def task_label_def)
  ultimately show ?thesis
    using g by blast
qed

lemma beta_then_acme_order:
  "map fst (sorted_items (fst (cmd_report ascii_lower 0 beta_then_acme))) =
     [(''Acme'', ''y''), (''beta'', ''x'')]"
  by code_simp

text \<open>
  Claim C7. The groups of the report are in ascending order of the pair of the
  lower-cased customer and the lower-cased project, and their keys are the keys of the
  rows. A history with an entry for \<open>(beta, x)\<close> and then one for \<open>(Acme, y)\<close> is
  reported with the group of \<open>Acme\<close> first.
\<close>

theorem report_groups_sorted:
  "sorted (map (\<lambda>x. (lower (fst (fst x)), lower (snd (fst x))))
             (sorted_items (fst (cmd_report lower now data)))) \<and>
   set (map fst (sorted_items (fst (cmd_report lower now data)))) = fst ` set (report_rows now data) \<and>
   map fst (sorted_items (fst (cmd_report ascii_lower 0 beta_then_acme))) =
     [(''Acme'', ''y''), (''beta'', ''x'')]"
proof (intro conjI)
  show "sorted (map (\<lambda>x. (lower (fst (fst x)), lower (snd (fst x))))
             (sorted_items (fst (cmd_report lower now data))))"
    by (simp add: report_sorted_items)
  show "set (map fst (sorted_items (fst (cmd_report lower now data)))) = fst ` set (report_rows now data)"
  proof -
    note s = report_summarises [of now data lower, unfolded summarises_def]
    have "k \<in> fst ` set (sorted_items (fst (cmd_report lower now data))) \<longleftrightarrow>
          k \<in> fst ` set (report_rows now data)" for k
    proof (cases "rows_of k (report_rows now data) = []")
      case True
      then have "map_of (sorted_items (fst (cmd_report lower now data))) k = None"
        using s by blast
      moreover have "k \<notin> fst ` set (report_rows now data)"
        using True by (auto simp add: rows_of_def filter_empty_conv)
      ultimately show ?thesis
        by (simp add: map_of_eq_None_iff)
    next
      case False
      then obtain g where "map_of (sorted_items (fst (cmd_report lower now data))) k = Some g"
        using s by blast
      then have "k \<in> fst ` set (sorted_items (fst (cmd_report lower now data)))"
        by (metis map_of_eq_None_iff option.distinct(1))
      moreover have "k \<in> fst ` set (report_rows now data)"
        using False by (auto simp add: rows_of_def filter_empty_conv)
      ultimately show ?thesis by simp
    qed
    then show ?thesis unfolding set_map by blast
  qed
  show "map fst (sorted_items (fst (cmd_report ascii_lower 0 beta_then_acme))) =
     [(''Acme'', ''y''), (''beta'', ''x'')]"
    by (rule beta_then_acme_order)
qed

lemma report_store: "snd (cmd_report lower now data) = data"
  by (simp add: cmd_report_def Let_def)

lemma report_includes_running:
  "includes_running (fst (cmd_report lower now data)) = (current data \<noteq> None)"
  by (simp add: cmd_report_def Let_def)

lemma report_idle_clock:
  "current data = None \<Longrightarrow> cmd_report lower now' data = cmd_report lower now data"
  by (simp add: cmd_report_def Let_def)

lemma fold_total:
  "fold (\<lambda>(key, info) total. total + total_seconds info) xs a =
     a + sum_list (map (\<lambda>x. total_seconds (snd x)) xs)"
  by (induction xs arbitrary: a) (simp_all add: case_prod_beta)

lemma sum_list_sort_key:
  fixes f :: "'a \<Rightarrow> int"
  shows "sum_list (map f (sort_key g xs)) = sum_list (map f xs)"
proof -
  have "mset (map f (sort_key g xs)) = mset (map f xs)"
    by simp
  then have "sum_mset (mset (map f (sort_key g xs))) = sum_mset (mset (map f xs))"
    by (rule arg_cong)
  then show ?thesis
    by (simp only: sum_mset_sum_list)
qed

lemma sum_list_update:
  fixes f :: "'b \<Rightarrow> int"
  shows "sum_list (map (\<lambda>x. f (snd x)) (AList.update k v xs)) =
     sum_list (map (\<lambda>x. f (snd x)) xs) + f v - (case map_of xs k of None \<Rightarrow> 0 | Some w \<Rightarrow> f w)"
  by (induction xs) auto

lemma total_process_row:
  "sum_list (map (\<lambda>x. total_seconds (snd x)) (process_row r summary)) =
     sum_list (map (\<lambda>x. total_seconds (snd x)) summary) + fst (snd r)"
  unfolding process_row_unfold Let_def
  by (simp add: sum_list_update split: option.splits)

lemma total_fold:
  "sum_list (map (\<lambda>x. total_seconds (snd x)) (fold process_row rows summary)) =
     sum_list (map (\<lambda>x. total_seconds (snd x)) summary) + seconds_of rows"
  by (induction rows arbitrary: summary) (simp_all add: total_process_row seconds_of_def)

lemma report_total:
  "total_day_seconds (fst (cmd_report lower now data)) = seconds_of (report_rows now data)"
proof -
  have "total_day_seconds (fst (cmd_report lower now data)) =
      fold (\<lambda>(key, info) total. total + total_seconds info)
        (sorted_items (fst (cmd_report lower now data))) 0"
    by (simp add: cmd_report_def Let_def)
  then show ?thesis
    by (simp add: fold_total report_sorted_items sum_list_sort_key total_fold)
qed

lemma report_rows_stopped:
  assumes "current data = Some c"
  shows "report_rows now' (snd (stop_current hhmm now data)) = report_rows now data"
  using assms
  by (simp add: report_rows_def stop_current_Some [OF assms] history_row_def running_row_def)

lemma seconds_of_history:
  "seconds_of (map history_row es) = sum_list (map duration_seconds es)"
  by (induction es) (simp_all add: seconds_of_def history_row_def)

lemma seconds_of_report_rows:
  "current data = None \<Longrightarrow>
     seconds_of (report_rows now data) = sum_list (map duration_seconds (history data))"
  "current data = Some c \<Longrightarrow>
     seconds_of (report_rows now data) =
       sum_list (map duration_seconds (history data)) +
       duration_seconds (committed_entry hhmm now data)"
proof -
  show "seconds_of (report_rows now data) = sum_list (map duration_seconds (history data))"
    if "current data = None"
    using that by (simp add: report_rows_def seconds_of_history)
  show "seconds_of (report_rows now data) =
       sum_list (map duration_seconds (history data)) +
       duration_seconds (committed_entry hhmm now data)"
    if c: "current data = Some c"
  proof -
    have "seconds_of (report_rows now data) =
        seconds_of (map history_row (history data)) + fst (snd (running_row now c))"
      using c by (simp add: report_rows_def seconds_of_snoc)
    then show ?thesis
      by (simp add: seconds_of_history running_row_def committed_entry_Some [OF c])
  qed
qed

text \<open>
  Claim C8, for timestamps in the range of the finite floats. The report is
  determined by the data file and the clock reading, through
  the rows of the specification: its groups are the sorted aggregation of
  \<open>report_rows now data\<close> and its total is the sum of the seconds of these rows, the
  billed durations of the history and, when a session is running, the duration that
  \<open>stop_current\<close> would commit at this clock reading. The running session is
  projected only: groups and total are those of the report made after the session is
  stopped at this reading, while \<open>cmd_report\<close> returns the data file as it was, with
  the session still current and the history as before, and marks the report as
  including the running timer. Without a running session the clock reading does not
  matter. A second run, on the data file that the first one returned, gives the same
  report.
\<close>

theorem report_reads_only:
  assumes "timestamps_finite now data"
  shows
  "snd (cmd_report lower now data) = data \<and>
   includes_running (fst (cmd_report lower now data)) = (current data \<noteq> None) \<and>
   sorted_items (fst (cmd_report lower now data)) =
     sort_key (\<lambda>x. (lower (fst (fst x)), lower (snd (fst x))))
       (fold process_row (report_rows now data) []) \<and>
   total_day_seconds (fst (cmd_report lower now data)) = seconds_of (report_rows now data) \<and>
   (current data = None \<longrightarrow>
      total_day_seconds (fst (cmd_report lower now data)) =
        sum_list (map duration_seconds (history data)) \<and>
      fst (cmd_report lower now' data) = fst (cmd_report lower now data)) \<and>
   (\<forall>c. current data = Some c \<longrightarrow>
      includes_running (fst (cmd_report lower now data)) \<and>
      current (snd (cmd_report lower now data)) = Some c \<and>
      history (snd (cmd_report lower now data)) = history data \<and>
      total_day_seconds (fst (cmd_report lower now data)) =
        sum_list (map duration_seconds (history data)) +
        duration_seconds (committed_entry hhmm now data) \<and>
      sorted_items (fst (cmd_report lower now data)) =
        sorted_items (fst (cmd_report lower now' (snd (stop_current hhmm now data)))) \<and>
      total_day_seconds (fst (cmd_report lower now data)) =
        total_day_seconds (fst (cmd_report lower now' (snd (stop_current hhmm now data))))) \<and>
   fst (cmd_report lower now (snd (cmd_report lower now data))) = fst (cmd_report lower now data)"
proof (intro conjI impI allI)
  show "snd (cmd_report lower now data) = data"
    by (rule report_store)
  show "includes_running (fst (cmd_report lower now data)) = (current data \<noteq> None)"
    by (rule report_includes_running)
  show "sorted_items (fst (cmd_report lower now data)) =
     sort_key (\<lambda>x. (lower (fst (fst x)), lower (snd (fst x))))
       (fold process_row (report_rows now data) [])"
    by (rule report_sorted_items)
  show "total_day_seconds (fst (cmd_report lower now data)) = seconds_of (report_rows now data)"
    by (rule report_total)
  show "fst (cmd_report lower now (snd (cmd_report lower now data))) = fst (cmd_report lower now data)"
    by (simp only: report_store)
next
  assume idle: "current data = None"
  show "total_day_seconds (fst (cmd_report lower now data)) =
      sum_list (map duration_seconds (history data))"
    by (simp only: report_total seconds_of_report_rows(1) [OF idle])
  show "fst (cmd_report lower now' data) = fst (cmd_report lower now data)"
    by (simp only: report_idle_clock [OF idle, of lower now' now])
next
  fix c
  assume c: "current data = Some c"
  show "includes_running (fst (cmd_report lower now data))"
    by (simp add: report_includes_running c)
  show "current (snd (cmd_report lower now data)) = Some c"
    by (simp only: report_store c)
  show "history (snd (cmd_report lower now data)) = history data"
    by (simp only: report_store)
  show "total_day_seconds (fst (cmd_report lower now data)) =
      sum_list (map duration_seconds (history data)) +
      duration_seconds (committed_entry hhmm now data)"
    by (simp only: report_total seconds_of_report_rows(2) [OF c])
  show "sorted_items (fst (cmd_report lower now data)) =
      sorted_items (fst (cmd_report lower now' (snd (stop_current hhmm now data))))"
    by (simp only: report_sorted_items report_rows_stopped [OF c])
  show "total_day_seconds (fst (cmd_report lower now data)) =
      total_day_seconds (fst (cmd_report lower now' (snd (stop_current hhmm now data))))"
    by (simp only: report_total report_rows_stopped [OF c])
qed

lemma running_store_billed:
  "duration_seconds (committed_entry hhmm_utc 1900 running_store) = 900"
proof -
  have r: "current running_store = Some \<lparr> customer = ''Test'', project = ''Proj'',
      start_timestamp = 1000, session_notes = Some [''First note''] \<rparr>"
    by (simp add: running_store_def)
  show ?thesis
    by (simp add: committed_entry_Some [OF r] fl_numeral round_seconds_900)
qed

theorem report_reads_only_witness:
  "timestamps_finite 1900 running_store \<and>
   current running_store \<noteq> None \<and>
   snd (cmd_report ascii_lower 1900 running_store) = running_store \<and>
   includes_running (fst (cmd_report ascii_lower 1900 running_store)) \<and>
   total_day_seconds (fst (cmd_report ascii_lower 1900 running_store)) = 900 \<and>
   history (snd (cmd_report ascii_lower 1900 running_store)) = [] \<and>
   total_day_seconds
     (fst (cmd_report ascii_lower 2000 (snd (stop_current hhmm_utc 1900 running_store)))) = 900 \<and>
   \<not> includes_running (fst (cmd_report ascii_lower 1900 two_bug_fixes)) \<and>
   total_day_seconds (fst (cmd_report ascii_lower 1900 two_bug_fixes)) = 2700 \<and>
   fst (cmd_report ascii_lower 0 two_bug_fixes) = fst (cmd_report ascii_lower 1900 two_bug_fixes)"
proof -
  have r: "current running_store = Some \<lparr> customer = ''Test'', project = ''Proj'',
      start_timestamp = 1000, session_notes = Some [''First note''] \<rparr>"
    by (simp add: running_store_def)
  have h: "history running_store = []"
    by (simp add: running_store_def)
  have t: "current two_bug_fixes = None"
    by (simp add: two_bug_fixes_def)
  have s: "sum_list (map duration_seconds (history two_bug_fixes)) = 2700"
    by (simp add: two_bug_fixes_def)
  have fa: "timestamps_finite 1900 running_store"
    by (simp add: timestamps_finite_def running_store_def finite_float_def fl_numeral)
  have fb: "timestamps_finite 1900 two_bug_fixes"
    by (simp add: timestamps_finite_def two_bug_fixes_def)
  note a = report_reads_only [OF fa, where lower = ascii_lower and now' = 2000 and hhmm = hhmm_utc]
  note b = report_reads_only [OF fb, where lower = ascii_lower and now' = 0 and hhmm = hhmm_utc]
  have a1: "snd (cmd_report ascii_lower 1900 running_store) = running_store"
    using a by (rule conjunct1)
  have a2: "includes_running (fst (cmd_report ascii_lower 1900 running_store))"
    using a r by blast
  have "total_day_seconds (fst (cmd_report ascii_lower 1900 running_store)) =
      sum_list (map duration_seconds (history running_store)) +
      duration_seconds (committed_entry hhmm_utc 1900 running_store)"
    using a r by blast
  then have a3: "total_day_seconds (fst (cmd_report ascii_lower 1900 running_store)) = 900"
    by (simp add: h running_store_billed)
  have a4: "history (snd (cmd_report ascii_lower 1900 running_store)) = history running_store"
    using a r by blast
  have "total_day_seconds (fst (cmd_report ascii_lower 1900 running_store)) =
      total_day_seconds
        (fst (cmd_report ascii_lower 2000 (snd (stop_current hhmm_utc 1900 running_store))))"
    using a r by blast
  with a3 have a5: "total_day_seconds
      (fst (cmd_report ascii_lower 2000 (snd (stop_current hhmm_utc 1900 running_store)))) = 900"
    by simp
  have b1: "\<not> includes_running (fst (cmd_report ascii_lower 1900 two_bug_fixes))"
    using b t by blast
  have "total_day_seconds (fst (cmd_report ascii_lower 1900 two_bug_fixes)) =
      sum_list (map duration_seconds (history two_bug_fixes))"
    using b t by blast
  then have b2: "total_day_seconds (fst (cmd_report ascii_lower 1900 two_bug_fixes)) = 2700"
    by (simp only: s)
  have b3: "fst (cmd_report ascii_lower 0 two_bug_fixes) = fst (cmd_report ascii_lower 1900 two_bug_fixes)"
    using b t by blast
  show ?thesis
    using fa r a1 a2 a3 a4 a5 b1 b2 b3 by (simp only: h simp_thms option.distinct not_False_eq_True)
qed

end
